theory Spec2Isabelle
  imports Main "HOL-Library.Code_Target_Nat"
begin

section \<open>The socket server of Link-backend: presence registry and message delivery\<close>

text \<open>
  The source is \<^verbatim>\<open>initializeSocket(server, db)\<close>: one module-level object
  \<^verbatim>\<open>userSockets\<close> (user id to socket id), and per connection the handlers
  \<^verbatim>\<open>registerUser\<close>, \<^verbatim>\<open>sendMessage\<close>, \<^verbatim>\<open>messageRead\<close>, \<^verbatim>\<open>typing\<close>,
  \<^verbatim>\<open>stopTyping\<close> and \<^verbatim>\<open>disconnect\<close>. Every store access is a \<^verbatim>\<open>db.query(sql, args, callback)\<close>:
  the handler returns once the query is issued, and the callback runs later with the
  variables it closed over. The model keeps that shape: a handler changes the registry
  and queues the query together with the variables its callback captured; a separate
  step completes one queued query (successfully or with an error) and runs its callback.

  User identifiers are the integer keys of the database (\<^verbatim>\<open>sender_id\<close>,
  \<^verbatim>\<open>receiver_id\<close>), modelled as natural numbers.
  Socket identifiers are the strings socket.io assigns to connections; they are never
  empty, so the test \<^verbatim>\<open>if (senderSocketId)\<close> on a value read from
  \<^verbatim>\<open>userSockets\<close> is the test that the user is bound. The timestamps that the source
  puts into every payload (\<^verbatim>\<open>new Date().toISOString()\<close>) are left out.
\<close>

subsection \<open>Data\<close>

type_synonym user_id = nat
type_synonym socket_id = string

text \<open>A row of the table \<^verbatim>\<open>messages\<close>, with the columns the SQL of the source names.\<close>

record message =
  message_id :: nat
  sender_id :: user_id
  receiver_id :: user_id
  message_text :: string
  delivered :: bool
  is_read :: bool

text \<open>Inbound events, with the fields each handler destructures from its argument.\<close>

datatype in_event =
    On_registerUser user_id
  | On_sendMessage user_id user_id string string
  | On_messageRead "nat list option" user_id user_id
  | On_typing user_id user_id
  | On_stopTyping user_id user_id
  | On_disconnect

text \<open>Outbound events, named as the strings passed to \<^verbatim>\<open>emit\<close>.\<close>

datatype out_event =
    MessageDelivered nat
  | MessageSaved string nat
  | UnreadMessagesCount nat
  | ReceiveMessage nat user_id string
  | MessageRead user_id "nat list"
  | Typing user_id user_id
  | StopTyping user_id user_id

text \<open>
  A query in flight: the SQL statement with its arguments, followed by the variables its
  callback closes over.
  \<^item> \<open>MarkDelivered userId\<close>: the UPDATE of \<^verbatim>\<open>registerUser\<close>;
  \<^item> \<open>SelectUnread userId\<close>: the SELECT issued by that UPDATE's callback;
  \<^item> \<open>InsertMessage senderId receiverId text tempId receiverSocketId senderSocketId\<close>:
    the INSERT of \<^verbatim>\<open>sendMessage\<close>, with \<^verbatim>\<open>delivered = !!receiverSocketId\<close>;
  \<^item> \<open>CountUnread receiverId receiverSocketId senderSocketId messageId senderId text\<close>:
    the SELECT COUNT issued by the INSERT's callback, only when \<^verbatim>\<open>receiverSocketId\<close> is set;
  \<^item> \<open>MarkRead messageIds senderSocketId receiverId\<close>: the UPDATE of \<^verbatim>\<open>messageRead\<close>.
\<close>

datatype db_call =
    MarkDelivered user_id
  | SelectUnread user_id
  | InsertMessage user_id user_id string string "socket_id option" "socket_id option"
  | CountUnread user_id socket_id "socket_id option" nat user_id string
  | MarkRead "nat list" "socket_id option" user_id

text \<open>The lines written with \<^verbatim>\<open>console.error\<close> and \<^verbatim>\<open>console.log\<close>.\<close>

datatype console_line =
    Error_marking_delivered
  | All_marked_delivered user_id
  | Error_retrieving_unread
  | Error_saving_message
  | Error_counting_unread
  | No_message_IDs_provided
  | Error_updating_status

text \<open>
  What the server does to the outside, in the order it does it: a query handed to
  \<^verbatim>\<open>db.query\<close>, an \<^verbatim>\<open>io.to(target).emit(event)\<close> (the target is the value read from
  \<^verbatim>\<open>userSockets\<close>, \<open>None\<close> for \<^verbatim>\<open>undefined\<close>: a room that no socket is in), a console line.
\<close>

datatype effect =
    Query db_call
  | Emit "socket_id option" out_event
  | Console console_line

record server =
  userSockets :: "(user_id \<times> socket_id) list"
  messages :: "message list"
  next_id :: nat
  pending :: "db_call list"
  trace :: "effect list"

subsection \<open>The registry object\<close>

text \<open>\<^verbatim>\<open>userSockets[userId]\<close>\<close>

fun reg_get :: "(user_id \<times> socket_id) list \<Rightarrow> user_id \<Rightarrow> socket_id option" where
  "reg_get [] u = None"
| "reg_get ((k, v) # r) u = (if k = u then Some v else reg_get r u)"

text \<open>
  The order in which \<^verbatim>\<open>for (let userId in userSockets)\<close> visits the keys: the keys
  that are array indices (the integers below \<open>2\<^sup>3\<^sup>2 - 1\<close>) come first, in ascending
  order; every other key follows, in the order in which it was added.
\<close>

definition is_array_index :: "user_id \<Rightarrow> bool" where
  "is_array_index u = (u < 4294967295)"

definition enumerated_before :: "user_id \<Rightarrow> user_id \<Rightarrow> bool" where
  "enumerated_before u k =
     (if is_array_index u then (if is_array_index k then u < k else True) else False)"

text \<open>
  \<^verbatim>\<open>userSockets[userId] = socket.id\<close>: an existing key keeps its place, a new key takes
  its place in the enumeration order.
\<close>

fun reg_set :: "user_id \<Rightarrow> socket_id \<Rightarrow> (user_id \<times> socket_id) list \<Rightarrow> (user_id \<times> socket_id) list" where
  "reg_set u c [] = [(u, c)]"
| "reg_set u c ((k, v) # r) =
     (if k = u then (u, c) # r
      else if enumerated_before u k then (u, c) # (k, v) # r
      else (k, v) # reg_set u c r)"

text \<open>
  The loop of \<^verbatim>\<open>disconnect\<close>:
  \<^verbatim>\<open>for (let userId in userSockets) { if (userSockets[userId] === socket.id) { delete userSockets[userId]; break; } }\<close>
\<close>

fun reg_unbind :: "socket_id \<Rightarrow> (user_id \<times> socket_id) list \<Rightarrow> (user_id \<times> socket_id) list" where
  "reg_unbind c [] = []"
| "reg_unbind c ((k, v) # r) = (if v = c then r else (k, v) # reg_unbind c r)"

subsection \<open>The statements run on the table\<close>

text \<open>\<^verbatim>\<open>UPDATE messages SET delivered = TRUE WHERE receiver_id = ? AND delivered = FALSE\<close>\<close>

definition mark_delivered :: "user_id \<Rightarrow> message list \<Rightarrow> message list" where
  "mark_delivered u ms =
     map (\<lambda>m. if receiver_id m = u \<and> \<not> delivered m then m\<lparr>delivered := True\<rparr> else m) ms"

text \<open>\<^verbatim>\<open>SELECT * FROM messages WHERE receiver_id = ? AND delivered = TRUE AND is_read = FALSE\<close>\<close>

definition select_unread :: "user_id \<Rightarrow> message list \<Rightarrow> message list" where
  "select_unread u ms = filter (\<lambda>m. receiver_id m = u \<and> delivered m \<and> \<not> is_read m) ms"

text \<open>
  Modelled from the spec: the declaration of the table \<^verbatim>\<open>messages\<close> (its generated key
  and the default of \<^verbatim>\<open>is_read\<close>) is not part of the sources. The row written by
  \<^verbatim>\<open>INSERT INTO messages (sender_id, receiver_id, message_text, timestamp, delivered) VALUES (?, ?, ?, NOW(), ?)\<close>
  gets its \<^verbatim>\<open>message_id\<close> from the table (the insert is the single source of the
  generated id, returned as \<^verbatim>\<open>results.insertId\<close>) and starts unread.
\<close>

definition new_row :: "nat \<Rightarrow> user_id \<Rightarrow> user_id \<Rightarrow> string \<Rightarrow> bool \<Rightarrow> message" where
  "new_row i sender receiver text d =
     \<lparr>message_id = i, sender_id = sender, receiver_id = receiver, message_text = text,
      delivered = d, is_read = False\<rparr>"

text \<open>\<^verbatim>\<open>SELECT COUNT(*) AS unreadCount FROM messages WHERE receiver_id = ? AND is_read = FALSE\<close>\<close>

definition count_unread :: "user_id \<Rightarrow> message list \<Rightarrow> nat" where
  "count_unread u ms = length (filter (\<lambda>m. receiver_id m = u \<and> \<not> is_read m) ms)"

text \<open>\<^verbatim>\<open>UPDATE messages SET is_read = TRUE WHERE message_id IN (?)\<close>\<close>

definition mark_read :: "nat list \<Rightarrow> message list \<Rightarrow> message list" where
  "mark_read ids ms =
     map (\<lambda>m. if message_id m \<in> set ids then m\<lparr>is_read := True\<rparr> else m) ms"

subsection \<open>Effects\<close>

definition issue :: "db_call \<Rightarrow> server \<Rightarrow> server" where
  "issue q s = s\<lparr>pending := pending s @ [q], trace := trace s @ [Query q]\<rparr>"

definition emit :: "socket_id option \<Rightarrow> out_event \<Rightarrow> server \<Rightarrow> server" where
  "emit target e s = s\<lparr>trace := trace s @ [Emit target e]\<rparr>"

definition console :: "console_line \<Rightarrow> server \<Rightarrow> server" where
  "console l s = s\<lparr>trace := trace s @ [Console l]\<rparr>"

subsection \<open>The handlers, up to the query each one issues\<close>

definition registerUser :: "socket_id \<Rightarrow> user_id \<Rightarrow> server \<Rightarrow> server" where
  "registerUser socket userId s =
     (if reg_get (userSockets s) userId \<noteq> Some socket
      then issue (MarkDelivered userId)
             (s\<lparr>userSockets := reg_set userId socket (userSockets s)\<rparr>)
      else s)"

definition sendMessage :: "user_id \<Rightarrow> user_id \<Rightarrow> string \<Rightarrow> string \<Rightarrow> server \<Rightarrow> server" where
  "sendMessage senderId receiverId text tempId s =
     (let receiverSocketId = reg_get (userSockets s) receiverId;
          senderSocketId = reg_get (userSockets s) senderId
      in issue (InsertMessage senderId receiverId text tempId receiverSocketId senderSocketId) s)"

definition messageRead :: "nat list option \<Rightarrow> user_id \<Rightarrow> user_id \<Rightarrow> server \<Rightarrow> server" where
  "messageRead messageIds senderId receiverId s =
     (case messageIds of
        None \<Rightarrow> console No_message_IDs_provided s
      | Some ids \<Rightarrow>
          if ids = [] then console No_message_IDs_provided s
          else let senderSocketId = reg_get (userSockets s) senderId
               in issue (MarkRead ids senderSocketId receiverId) s)"

definition typing :: "user_id \<Rightarrow> user_id \<Rightarrow> server \<Rightarrow> server" where
  "typing senderId receiverId s =
     (case reg_get (userSockets s) receiverId of
        Some receiverSocketId \<Rightarrow> emit (Some receiverSocketId) (Typing senderId receiverId) s
      | None \<Rightarrow> s)"

definition stopTyping :: "user_id \<Rightarrow> user_id \<Rightarrow> server \<Rightarrow> server" where
  "stopTyping senderId receiverId s =
     (case reg_get (userSockets s) receiverId of
        Some receiverSocketId \<Rightarrow> emit (Some receiverSocketId) (StopTyping senderId receiverId) s
      | None \<Rightarrow> s)"

definition disconnect :: "socket_id \<Rightarrow> server \<Rightarrow> server" where
  "disconnect socket s = s\<lparr>userSockets := reg_unbind socket (userSockets s)\<rparr>"

fun handle :: "socket_id \<Rightarrow> in_event \<Rightarrow> server \<Rightarrow> server" where
  "handle socket (On_registerUser userId) s = registerUser socket userId s"
| "handle socket (On_sendMessage senderId receiverId text tempId) s =
     sendMessage senderId receiverId text tempId s"
| "handle socket (On_messageRead messageIds senderId receiverId) s =
     messageRead messageIds senderId receiverId s"
| "handle socket (On_typing senderId receiverId) s = typing senderId receiverId s"
| "handle socket (On_stopTyping senderId receiverId) s = stopTyping senderId receiverId s"
| "handle socket On_disconnect s = disconnect socket s"

subsection \<open>The callbacks\<close>

text \<open>
  The body of \<^verbatim>\<open>results.forEach\<close> in \<^verbatim>\<open>registerUser\<close>: the sender's socket is read from
  \<^verbatim>\<open>userSockets\<close> when the callback runs.
\<close>

definition notify_sender :: "server \<Rightarrow> message \<Rightarrow> server" where
  "notify_sender s m =
     (case reg_get (userSockets s) (sender_id m) of
        Some senderSocketId \<Rightarrow> emit (Some senderSocketId) (MessageDelivered (message_id m)) s
      | None \<Rightarrow> s)"

text \<open>
  \<open>complete q ok s\<close>: the query \<open>q\<close> finishes. With \<open>ok\<close> the statement has run on the
  table and the callback gets its result; otherwise the callback gets \<^verbatim>\<open>err\<close> and the
  table is as before.
\<close>

fun complete :: "db_call \<Rightarrow> bool \<Rightarrow> server \<Rightarrow> server" where
  "complete (MarkDelivered userId) ok s =
     (if \<not> ok then console Error_marking_delivered s
      else issue (SelectUnread userId)
             (console (All_marked_delivered userId)
                (s\<lparr>messages := mark_delivered userId (messages s)\<rparr>)))"
| "complete (SelectUnread userId) ok s =
     (if \<not> ok then console Error_retrieving_unread s
      else foldl notify_sender s (select_unread userId (messages s)))"
| "complete (InsertMessage senderId receiverId text tempId receiverSocketId senderSocketId) ok s =
     (if \<not> ok then console Error_saving_message s
      else let messageId = next_id s;
               s1 = s\<lparr>messages := messages s @
                        [new_row messageId senderId receiverId text (receiverSocketId \<noteq> None)],
                      next_id := Suc messageId\<rparr>;
               s2 = emit senderSocketId (MessageSaved tempId messageId) s1
           in case receiverSocketId of
                Some r \<Rightarrow> issue (CountUnread receiverId r senderSocketId messageId senderId text) s2
              | None \<Rightarrow> s2)"
| "complete (CountUnread receiverId receiverSocketId senderSocketId messageId senderId text) ok s =
     (if \<not> ok then console Error_counting_unread s
      else let unreadCount = count_unread receiverId (messages s)
           in emit senderSocketId (MessageDelivered messageId)
                (emit (Some receiverSocketId) (ReceiveMessage messageId senderId text)
                   (emit (Some receiverSocketId) (UnreadMessagesCount unreadCount) s)))"
| "complete (MarkRead messageIds senderSocketId receiverId) ok s =
     (if \<not> ok then console Error_updating_status s
      else let s1 = s\<lparr>messages := mark_read messageIds (messages s)\<rparr>
           in case senderSocketId of
                Some c \<Rightarrow> emit (Some c) (MessageRead receiverId messageIds) s1
              | None \<Rightarrow> s1)"

subsection \<open>Runs of the server\<close>

text \<open>
  An action is an event arriving on a socket, or the completion of the \<open>i\<close>-th query in
  flight. Any query in flight may complete next, so a run covers a single database
  connection (first in, first out) as well as a pool.
\<close>

datatype action = Recv socket_id in_event | Done nat bool

definition drop_nth :: "nat \<Rightarrow> 'a list \<Rightarrow> 'a list" where
  "drop_nth i xs = take i xs @ drop (Suc i) xs"

fun step :: "action \<Rightarrow> server \<Rightarrow> server" where
  "step (Recv socket e) s = handle socket e s"
| "step (Done i ok) s =
     (if i < length (pending s)
      then complete (pending s ! i) ok (s\<lparr>pending := drop_nth i (pending s)\<rparr>)
      else s)"

definition run :: "action list \<Rightarrow> server \<Rightarrow> server" where
  "run as s = foldl (\<lambda>s a. step a s) s as"

text \<open>The server after \<^verbatim>\<open>initializeSocket\<close>, on an empty table whose first key is 1.\<close>

definition init :: server where
  "init = \<lparr>userSockets = [], messages = [], next_id = 1, pending = [], trace = []\<rparr>"

subsection \<open>Reading a trace, and the registry the spec describes\<close>

text \<open>The emissions of a trace, in order, each with the target given to \<^verbatim>\<open>io.to\<close>.\<close>

fun emissions :: "effect list \<Rightarrow> (socket_id option \<times> out_event) list" where
  "emissions [] = []"
| "emissions (Emit target e # xs) = (target, e) # emissions xs"
| "emissions (Query q # xs) = emissions xs"
| "emissions (Console l # xs) = emissions xs"

text \<open>The queries of a trace, in the order they were issued.\<close>

fun queries :: "effect list \<Rightarrow> db_call list" where
  "queries [] = []"
| "queries (Query q # xs) = q # queries xs"
| "queries (Emit target e # xs) = queries xs"
| "queries (Console l # xs) = queries xs"

text \<open>An effect reaches a client when it is an emission into the room of a socket.\<close>

fun client_visible :: "effect \<Rightarrow> bool" where
  "client_visible (Emit (Some c) e) = True"
| "client_visible (Emit None e) = False"
| "client_visible (Query q) = False"
| "client_visible (Console l) = False"

text \<open>The line each callback writes in its \<^verbatim>\<open>if (err)\<close> branch.\<close>

fun failure_line :: "db_call \<Rightarrow> console_line" where
  "failure_line (MarkDelivered userId) = Error_marking_delivered"
| "failure_line (SelectUnread userId) = Error_retrieving_unread"
| "failure_line (InsertMessage senderId receiverId text tempId r sd) = Error_saving_message"
| "failure_line (CountUnread receiverId r sd messageId senderId text) = Error_counting_unread"
| "failure_line (MarkRead messageIds sd receiverId) = Error_updating_status"

text \<open>
  What one row of the backlog contributes to the trace when its sender is looked up in
  the registry \<open>reg\<close>.
\<close>

definition receipt :: "(user_id \<times> socket_id) list \<Rightarrow> message \<Rightarrow> effect option" where
  "receipt reg m =
     (case reg_get reg (sender_id m) of
        Some c \<Rightarrow> Some (Emit (Some c) (MessageDelivered (message_id m)))
      | None \<Rightarrow> None)"

text \<open>
  The binding of one user as the spec words it: \<open>register(user, connectionId)\<close> binds the
  user to the connection, overwriting any prior binding; \<open>unbind(connectionId)\<close> removes
  the binding if it still points at that connection, and is a no-op otherwise.
\<close>

fun spec_binding :: "user_id \<Rightarrow> socket_id option \<Rightarrow> action list \<Rightarrow> socket_id option" where
  "spec_binding u cur [] = cur"
| "spec_binding u cur (Recv c (On_registerUser u') # as) =
     spec_binding u (if u' = u then Some c else cur) as"
| "spec_binding u cur (Recv c On_disconnect # as) =
     spec_binding u (if cur = Some c then None else cur) as"
| "spec_binding u cur (a # as) = spec_binding u cur as"

text \<open>An action of a run in which every registration is for the user \<open>u\<close>.\<close>

fun only_user :: "user_id \<Rightarrow> action \<Rightarrow> bool" where
  "only_user u (Recv c (On_registerUser u')) = (u' = u)"
| "only_user u a = True"

text \<open>The action is the completion of a query.\<close>

fun is_completion :: "action \<Rightarrow> bool" where
  "is_completion (Done i ok) = True"
| "is_completion (Recv c e) = False"

text \<open>A registry that holds at most the one user \<open>u\<close>.\<close>

definition single_binding :: "user_id \<Rightarrow> socket_id option \<Rightarrow> (user_id \<times> socket_id) list" where
  "single_binding u cur = (case cur of None \<Rightarrow> [] | Some c \<Rightarrow> [(u, c)])"

text \<open>
  What a query that succeeds does to the table; \<open>n\<close> is the key the table generates
  next.
\<close>

fun apply_query :: "db_call \<Rightarrow> nat \<Rightarrow> message list \<Rightarrow> message list" where
  "apply_query (MarkDelivered userId) n ms = mark_delivered userId ms"
| "apply_query (SelectUnread userId) n ms = ms"
| "apply_query (InsertMessage senderId receiverId text tempId r sd) n ms =
     ms @ [new_row n senderId receiverId text (r \<noteq> None)]"
| "apply_query (CountUnread receiverId r sd messageId senderId text) n ms = ms"
| "apply_query (MarkRead messageIds sd receiverId) n ms = mark_read messageIds ms"

text \<open>The invariant of the spec's data model: a row that is read is delivered.\<close>

definition read_implies_delivered :: "message list \<Rightarrow> bool" where
  "read_implies_delivered ms = list_all (\<lambda>m. is_read m \<longrightarrow> delivered m) ms"

text \<open>
  A row \<open>m\<close> is kept as \<open>m'\<close>: the same message, and a flag that was set is still set.
  A table is kept when each of its rows is kept in place; rows may have been added.
\<close>

definition row_kept :: "message \<Rightarrow> message \<Rightarrow> bool" where
  "row_kept m m' =
     (message_id m' = message_id m \<and> sender_id m' = sender_id m \<and>
      receiver_id m' = receiver_id m \<and> message_text m' = message_text m \<and>
      (delivered m \<longrightarrow> delivered m') \<and> (is_read m \<longrightarrow> is_read m'))"

fun rows_kept :: "message list \<Rightarrow> message list \<Rightarrow> bool" where
  "rows_kept [] ms' = True"
| "rows_kept (m # ms) [] = False"
| "rows_kept (m # ms) (m' # ms') = (row_kept m m' \<and> rows_kept ms ms')"

text \<open>
  The action completes, successfully, a read update that names a row whose
  \<^verbatim>\<open>delivered\<close> is still false.
\<close>

fun reads_undelivered :: "action \<Rightarrow> server \<Rightarrow> bool" where
  "reads_undelivered (Recv c e) s = False"
| "reads_undelivered (Done i ok) s =
     (ok \<and> i < length (pending s) \<and>
      (case pending s ! i of
         MarkRead messageIds senderSocketId receiverId \<Rightarrow>
           list_ex (\<lambda>m. message_id m \<in> set messageIds \<and> \<not> delivered m) (messages s)
       | _ \<Rightarrow> False))"

text \<open>No action of the run does so.\<close>

fun reads_after_delivery :: "action list \<Rightarrow> server \<Rightarrow> bool" where
  "reads_after_delivery [] s = True"
| "reads_after_delivery (a # as) s =
     (\<not> reads_undelivered a s \<and> reads_after_delivery as (step a s))"

text \<open>The row with a given key, and the table's keys being generated: distinct and below the next one.\<close>

definition find_message :: "nat \<Rightarrow> message list \<Rightarrow> message option" where
  "find_message i ms = List.find (\<lambda>m. message_id m = i) ms"

definition store_ok :: "server \<Rightarrow> bool" where
  "store_ok s = (distinct (map message_id (messages s)) \<and>
                 list_all (\<lambda>i. i < next_id s) (map message_id (messages s)))"

section \<open>Properties\<close>

subsection \<open>Runs and traces\<close>

lemma run_Nil [simp]: "run [] s = s"
  by (simp add: run_def)

lemma run_Cons [simp]: "run (a # as) s = run as (step a s)"
  by (simp add: run_def)

lemma run_append: "run (as @ bs) s = run bs (run as s)"
  by (simp add: run_def)

lemma emissions_append [simp]: "emissions (xs @ ys) = emissions xs @ emissions ys"
  by (induction xs rule: emissions.induct) simp_all

lemma queries_append [simp]: "queries (xs @ ys) = queries xs @ queries ys"
  by (induction xs rule: queries.induct) simp_all

lemma drop_nth_last [simp]: "drop_nth (length xs) (xs @ [x]) = xs"
  by (simp add: drop_nth_def)

lemma complete_failed: "complete q False s = console (failure_line q) s"
  by (cases q) simp_all

lemma notify_sender_trace:
  "notify_sender s m = s\<lparr>trace := trace s @ List.map_filter (receipt (userSockets s)) [m]\<rparr>"
  by (simp add: notify_sender_def receipt_def emit_def split: option.split)

lemma foldl_notify:
  "foldl notify_sender s rows =
     s\<lparr>trace := trace s @ List.map_filter (receipt (userSockets s)) rows\<rparr>"
proof (induction rows arbitrary: s)
  case Nil
  show ?case by simp
next
  case (Cons m rows)
  have "foldl notify_sender s (m # rows) = foldl notify_sender (notify_sender s m) rows"
    by simp
  also have "\<dots> = (notify_sender s m)\<lparr>trace := trace (notify_sender s m) @
      List.map_filter (receipt (userSockets (notify_sender s m))) rows\<rparr>"
    by (rule Cons)
  also have "\<dots> = s\<lparr>trace := trace s @ List.map_filter (receipt (userSockets s)) (m # rows)\<rparr>"
    by (simp add: notify_sender_trace split: option.split)
  finally show ?case .
qed

subsection \<open>Only registration and disconnection touch the registry\<close>

lemma userSockets_issue [simp]: "userSockets (issue q s) = userSockets s"
  by (simp add: issue_def)

lemma userSockets_emit [simp]: "userSockets (emit t e s) = userSockets s"
  by (simp add: emit_def)

lemma userSockets_console [simp]: "userSockets (console l s) = userSockets s"
  by (simp add: console_def)

lemma userSockets_complete [simp]: "userSockets (complete q ok s) = userSockets s"
  by (cases q) (simp_all add: Let_def foldl_notify split: option.split)

lemma userSockets_Done [simp]: "userSockets (step (Done i ok) s) = userSockets s"
  by simp

lemma userSockets_sendMessage [simp]:
  "userSockets (sendMessage senderId receiverId text tempId s) = userSockets s"
  by (simp add: sendMessage_def Let_def)

lemma userSockets_messageRead [simp]:
  "userSockets (messageRead messageIds senderId receiverId s) = userSockets s"
  by (simp add: messageRead_def Let_def split: option.split)

lemma userSockets_typing [simp]:
  "userSockets (typing senderId receiverId s) = userSockets s"
  by (simp add: typing_def split: option.split)

lemma userSockets_stopTyping [simp]:
  "userSockets (stopTyping senderId receiverId s) = userSockets s"
  by (simp add: stopTyping_def split: option.split)

lemma userSockets_run_completions:
  "\<forall>a\<in>set as. is_completion a \<Longrightarrow> userSockets (run as s) = userSockets s"
proof (induction as arbitrary: s)
  case Nil
  then show ?case by simp
next
  case (Cons a as)
  then show ?case by (cases a) simp_all
qed

subsection \<open>The registry object\<close>

lemma reg_get_set_same [simp]: "reg_get (reg_set u c r) u = Some c"
  by (induction r) auto

lemma reg_get_set_other [simp]: "u' \<noteq> u \<Longrightarrow> reg_get (reg_set u c r) u' = reg_get r u'"
  by (induction r) auto

lemma reg_get_unbind_other:
  "reg_get r u = Some b \<Longrightarrow> b \<noteq> c \<Longrightarrow> reg_get (reg_unbind c r) u = Some b"
  by (induction r) auto

lemma reg_unbind_absent: "c \<notin> snd ` set r \<Longrightarrow> reg_unbind c r = r"
  by (induction r) auto

lemma find_holds: "List.find P xs = Some x \<Longrightarrow> P x"
  by (induction xs) (auto split: if_splits)

lemma reg_unbind_find:
  "reg_unbind c r =
     (case List.find (\<lambda>e. snd e = c) r of None \<Rightarrow> r | Some e \<Rightarrow> remove1 e r)"
proof (induction r)
  case Nil
  show ?case by simp
next
  case (Cons a r)
  obtain k v where a: "a = (k, v)" by (cases a)
  show ?case
  proof (cases "v = c")
    case True
    with a show ?thesis by simp
  next
    case False
    show ?thesis
    proof (cases "List.find (\<lambda>e. snd e = c) r")
      case None
      with False a Cons show ?thesis by simp
    next
      case (Some e)
      from find_holds[OF Some] False a have "e \<noteq> a" by auto
      with Some False a Cons show ?thesis by simp
    qed
  qed
qed

lemma reg_unbind_length: "length r - length (reg_unbind c r) \<le> 1"
  by (induction r) auto

lemma single_user_run:
  "\<forall>a\<in>set as. only_user u a \<Longrightarrow> userSockets s = single_binding u cur \<Longrightarrow>
   userSockets (run as s) = single_binding u (spec_binding u cur as)"
proof (induction as arbitrary: s cur)
  case Nil
  then show ?case by simp
next
  case (Cons a as)
  show ?case
  proof (cases a)
    case (Done i ok)
    with Cons show ?thesis by simp
  next
    case (Recv c e)
    show ?thesis
    proof (cases e)
      case (On_registerUser u')
      with Recv Cons.prems have u': "u' = u" by simp
      have "userSockets (step a s) = single_binding u (Some c)"
        using Recv On_registerUser u' Cons.prems(2)
        by (auto simp: registerUser_def single_binding_def split: option.splits)
      with Cons.IH[of "step a s" "Some c"] Cons.prems(1) Recv On_registerUser u'
      show ?thesis by simp
    next
      case On_disconnect
      have "userSockets (step a s) = single_binding u (if cur = Some c then None else cur)"
        using Recv On_disconnect Cons.prems(2)
        by (auto simp: disconnect_def single_binding_def split: option.splits)
      with Cons.IH[of "step a s" "if cur = Some c then None else cur"] Cons.prems(1)
        Recv On_disconnect
      show ?thesis by simp
    next
      case (On_sendMessage senderId receiverId body tempId)
      then have "userSockets (step a s) = userSockets s" using Recv by simp
      with Cons.IH[of "step a s" cur] Cons.prems Recv On_sendMessage show ?thesis by simp
    next
      case (On_messageRead messageIds senderId receiverId)
      then have "userSockets (step a s) = userSockets s" using Recv by simp
      with Cons.IH[of "step a s" cur] Cons.prems Recv On_messageRead show ?thesis by simp
    next
      case (On_typing senderId receiverId)
      then have "userSockets (step a s) = userSockets s" using Recv by simp
      with Cons.IH[of "step a s" cur] Cons.prems Recv On_typing show ?thesis by simp
    next
      case (On_stopTyping senderId receiverId)
      then have "userSockets (step a s) = userSockets s" using Recv by simp
      with Cons.IH[of "step a s" cur] Cons.prems Recv On_stopTyping show ?thesis by simp
    qed
  qed
qed

subsection \<open>The table\<close>

lemma messages_issue [simp]: "messages (issue q s) = messages s"
  by (simp add: issue_def)

lemma messages_emit [simp]: "messages (emit t e s) = messages s"
  by (simp add: emit_def)

lemma messages_console [simp]: "messages (console l s) = messages s"
  by (simp add: console_def)

lemma messages_handle [simp]: "messages (handle c e s) = messages s"
  by (cases e) (simp_all add: registerUser_def sendMessage_def messageRead_def typing_def
      stopTyping_def disconnect_def Let_def split: option.split)

lemma messages_complete:
  "messages (complete q ok s) =
     (if ok then apply_query q (next_id s) (messages s) else messages s)"
  by (cases q) (simp_all add: Let_def foldl_notify split: option.split)

lemma messages_Done:
  "messages (step (Done i ok) s) =
     (if ok \<and> i < length (pending s)
      then apply_query (pending s ! i) (next_id s) (messages s) else messages s)"
  by (simp add: messages_complete del: complete.simps)

lemma next_id_handle [simp]: "next_id (handle c e s) = next_id s"
  by (cases e) (simp_all add: registerUser_def sendMessage_def messageRead_def typing_def
      stopTyping_def disconnect_def issue_def emit_def console_def Let_def split: option.split)

lemma next_id_complete:
  "next_id (complete q ok s) =
     (case q of
        InsertMessage senderId receiverId text tempId r sd \<Rightarrow>
          if ok then Suc (next_id s) else next_id s
      | _ \<Rightarrow> next_id s)"
  by (cases q)
     (simp_all add: Let_def foldl_notify issue_def emit_def console_def split: option.split)

lemma next_id_Done:
  "next_id (step (Done i ok) s) =
     (if i < length (pending s)
      then (case pending s ! i of
              InsertMessage senderId receiverId text tempId r sd \<Rightarrow>
                if ok then Suc (next_id s) else next_id s
            | _ \<Rightarrow> next_id s)
      else next_id s)"
  by (simp add: next_id_complete del: complete.simps split: db_call.split)

lemma rows_kept_refl [simp]: "rows_kept ms ms"
  by (induction ms) (simp_all add: row_kept_def)

lemma rows_kept_trans: "rows_kept xs ys \<Longrightarrow> rows_kept ys zs \<Longrightarrow> rows_kept xs zs"
proof (induction xs ys arbitrary: zs rule: rows_kept.induct)
  case (1 ms')
  show ?case by simp
next
  case (2 m ms)
  then show ?case by simp
next
  case (3 m ms m' ms')
  then show ?case by (cases zs) (auto simp: row_kept_def)
qed

lemma rows_kept_append [simp]: "rows_kept ms (ms @ extra)"
  by (induction ms) (simp_all add: row_kept_def)

lemma rows_kept_map: "(\<And>m. row_kept m (f m)) \<Longrightarrow> rows_kept ms (map f ms)"
  by (induction ms) simp_all

lemma rows_kept_mark_delivered [simp]: "rows_kept ms (mark_delivered u ms)"
  unfolding mark_delivered_def by (rule rows_kept_map) (simp add: row_kept_def)

lemma rows_kept_mark_read [simp]: "rows_kept ms (mark_read ids ms)"
  unfolding mark_read_def by (rule rows_kept_map) (simp add: row_kept_def)

lemma rows_kept_apply_query [simp]: "rows_kept ms (apply_query q n ms)"
  by (cases q) simp_all

lemma rows_kept_step: "rows_kept (messages s) (messages (step a s))"
proof (cases a)
  case (Recv c e)
  then show ?thesis by simp
next
  case (Done i ok)
  then show ?thesis by (simp add: messages_Done del: step.simps)
qed

lemma rows_kept_run: "rows_kept (messages s) (messages (run as s))"
proof (induction as arbitrary: s)
  case Nil
  show ?case by simp
next
  case (Cons a as)
  have "rows_kept (messages s) (messages (step a s))"
    by (rule rows_kept_step)
  moreover have "rows_kept (messages (step a s)) (messages (run as (step a s)))"
    by (rule Cons)
  ultimately show ?case by (simp add: rows_kept_trans)
qed

lemma rid_mark_delivered:
  "read_implies_delivered ms \<Longrightarrow> read_implies_delivered (mark_delivered u ms)"
  by (induction ms) (auto simp: read_implies_delivered_def mark_delivered_def)

lemma rid_insert:
  "read_implies_delivered ms \<Longrightarrow> read_implies_delivered (ms @ [new_row i sd r body d])"
  by (simp add: read_implies_delivered_def new_row_def)

lemma rid_mark_read:
  "read_implies_delivered ms \<Longrightarrow>
   \<not> list_ex (\<lambda>m. message_id m \<in> set ids \<and> \<not> delivered m) ms \<Longrightarrow>
   read_implies_delivered (mark_read ids ms)"
  by (auto simp: read_implies_delivered_def mark_read_def list_all_iff list_ex_iff)

lemma rid_step:
  assumes "read_implies_delivered (messages s)" and "\<not> reads_undelivered a s"
  shows "read_implies_delivered (messages (step a s))"
proof (cases a)
  case (Recv c e)
  with assms show ?thesis by simp
next
  case (Done i ok)
  show ?thesis
  proof (cases "ok \<and> i < length (pending s)")
    case False
    with Done assms show ?thesis
      by (auto simp add: messages_Done simp del: step.simps)
  next
    case True
    with Done assms show ?thesis
      by (cases "pending s ! i")
         (simp_all add: messages_Done rid_mark_delivered rid_insert rid_mark_read
            del: step.simps)
  qed
qed

lemma rid_run:
  "read_implies_delivered (messages s) \<Longrightarrow> reads_after_delivery as s \<Longrightarrow>
   read_implies_delivered (messages (run as s))"
proof (induction as arbitrary: s)
  case Nil
  then show ?case by simp
next
  case (Cons a as)
  then show ?case by (simp add: rid_step)
qed

lemma message_id_mark_delivered [simp]:
  "map message_id (mark_delivered u ms) = map message_id ms"
  by (induction ms) (simp_all add: mark_delivered_def)

lemma message_id_mark_read [simp]:
  "map message_id (mark_read ids ms) = map message_id ms"
  by (induction ms) (simp_all add: mark_read_def)

text \<open>The keys of the table stay distinct and below the next key, so they do from \<open>init\<close> on.\<close>

lemma store_ok_init: "store_ok init"
  by (simp add: store_ok_def init_def)

lemma store_ok_step: "store_ok s \<Longrightarrow> store_ok (step a s)"
proof (cases a)
  case (Recv c e)
  assume "store_ok s"
  with Recv show ?thesis by (simp add: store_ok_def)
next
  case (Done i ok)
  assume ok: "store_ok s"
  show ?thesis
  proof (cases "ok \<and> i < length (pending s)")
    case False
    with Done ok show ?thesis
      by (auto simp add: store_ok_def messages_Done next_id_Done
          simp del: step.simps split: db_call.split)
  next
    case True
    with Done ok show ?thesis
      by (cases "pending s ! i")
         (auto simp add: store_ok_def messages_Done next_id_Done list_all_iff new_row_def
            simp del: step.simps)
  qed
qed

lemma store_ok_run: "store_ok s \<Longrightarrow> store_ok (run as s)"
  by (induction as arbitrary: s) (simp_all add: store_ok_step)

lemma filter_id_mark_delivered:
  "filter (\<lambda>x. message_id x = i) (mark_delivered u ms) =
   mark_delivered u (filter (\<lambda>x. message_id x = i) ms)"
  by (induction ms) (simp_all add: mark_delivered_def)

lemma filter_id_select_unread:
  "filter (\<lambda>x. message_id x = i) (select_unread u ms) =
   select_unread u (filter (\<lambda>x. message_id x = i) ms)"
  by (induction ms) (simp_all add: select_unread_def)

lemma distinct_find_filter:
  "distinct (map message_id ms) \<Longrightarrow> find_message i ms = Some m \<Longrightarrow>
   filter (\<lambda>x. message_id x = i) ms = [m]"
proof (induction ms)
  case Nil
  then show ?case by (simp add: find_message_def)
next
  case (Cons x ms)
  show ?case
  proof (cases "message_id x = i")
    case True
    with Cons.prems have "x = m" and "i \<notin> message_id ` set ms"
      by (auto simp: find_message_def)
    then have "filter (\<lambda>x. message_id x = i) ms = []"
      by (auto simp: filter_empty_conv)
    with True \<open>x = m\<close> show ?thesis by simp
  next
    case False
    with Cons show ?thesis by (simp add: find_message_def)
  qed
qed

lemma delivered_receipts_of:
  "filter (\<lambda>(t, e). e = MessageDelivered i) (emissions (List.map_filter (receipt reg) rows)) =
   emissions (List.map_filter (receipt reg) (filter (\<lambda>x. message_id x = i) rows))"
  by (induction rows) (auto simp: receipt_def split: option.split)

lemma find_mark_delivered:
  "find_message i (mark_delivered u ms) =
   map_option (\<lambda>m. if receiver_id m = u \<and> \<not> delivered m then m\<lparr>delivered := True\<rparr> else m)
     (find_message i ms)"
  by (induction ms) (simp_all add: find_message_def mark_delivered_def)

lemma delivered_update_id: "delivered m \<Longrightarrow> m\<lparr>delivered := True\<rparr> = m"
  by (cases m) simp

subsection \<open>One event with its callbacks\<close>

lemma send_saved:
  "run [Recv c (On_sendMessage senderId receiverId text tempId),
        Done (length (pending s)) True] s =
   s\<lparr>messages := messages s @
        [new_row (next_id s) senderId receiverId text (reg_get (userSockets s) receiverId \<noteq> None)],
     next_id := Suc (next_id s),
     pending := pending s @
        (case reg_get (userSockets s) receiverId of
           Some rc \<Rightarrow> [CountUnread receiverId rc (reg_get (userSockets s) senderId)
                         (next_id s) senderId text]
         | None \<Rightarrow> []),
     trace := trace s @
        [Query (InsertMessage senderId receiverId text tempId
                  (reg_get (userSockets s) receiverId) (reg_get (userSockets s) senderId)),
         Emit (reg_get (userSockets s) senderId) (MessageSaved tempId (next_id s))] @
        (case reg_get (userSockets s) receiverId of
           Some rc \<Rightarrow> [Query (CountUnread receiverId rc (reg_get (userSockets s) senderId)
                                (next_id s) senderId text)]
         | None \<Rightarrow> [])\<rparr>"
  by (simp add: sendMessage_def issue_def emit_def Let_def split: option.split)

lemma send_online:
  assumes "reg_get (userSockets s) receiverId = Some rc"
  shows "run [Recv c (On_sendMessage senderId receiverId text tempId),
              Done (length (pending s)) True, Done (length (pending s)) True] s =
         s\<lparr>messages := messages s @ [new_row (next_id s) senderId receiverId text True],
           next_id := Suc (next_id s),
           trace := trace s @
             [Query (InsertMessage senderId receiverId text tempId (Some rc)
                       (reg_get (userSockets s) senderId)),
              Emit (reg_get (userSockets s) senderId) (MessageSaved tempId (next_id s)),
              Query (CountUnread receiverId rc (reg_get (userSockets s) senderId)
                       (next_id s) senderId text),
              Emit (Some rc) (UnreadMessagesCount
                 (count_unread receiverId
                    (messages s @ [new_row (next_id s) senderId receiverId text True]))),
              Emit (Some rc) (ReceiveMessage (next_id s) senderId text),
              Emit (reg_get (userSockets s) senderId) (MessageDelivered (next_id s))]\<rparr>"
  using assms by (simp add: sendMessage_def issue_def emit_def Let_def)

lemma read_done:
  assumes "ids \<noteq> []"
  shows "run [Recv c (On_messageRead (Some ids) senderId receiverId),
              Done (length (pending s)) True] s =
         s\<lparr>messages := mark_read ids (messages s),
           trace := trace s @
             Query (MarkRead ids (reg_get (userSockets s) senderId) receiverId) #
             (case reg_get (userSockets s) senderId of
                Some x \<Rightarrow> [Emit (Some x) (MessageRead receiverId ids)]
              | None \<Rightarrow> [])\<rparr>"
  using assms by (simp add: messageRead_def issue_def emit_def Let_def split: option.split)

lemma register_done:
  assumes "reg_get (userSockets s) userId \<noteq> Some c"
  shows "run [Recv c (On_registerUser userId),
              Done (length (pending s)) True, Done (length (pending s)) True] s =
         s\<lparr>userSockets := reg_set userId c (userSockets s),
           messages := mark_delivered userId (messages s),
           trace := trace s @
             [Query (MarkDelivered userId), Console (All_marked_delivered userId),
              Query (SelectUnread userId)] @
             List.map_filter (receipt (reg_set userId c (userSockets s)))
               (select_unread userId (mark_delivered userId (messages s)))\<rparr>"
  using assms by (simp add: registerUser_def issue_def console_def foldl_notify)

lemma register_delivers:
  assumes d: "distinct (map message_id (messages sb))"
    and f: "find_message i (messages sb) = Some m"
    and r: "receiver_id m = receiverId"
    and u: "\<not> is_read m"
    and c: "reg_get (userSockets sb) receiverId \<noteq> Some C"
  shows "find_message i (messages (run [Recv C (On_registerUser receiverId),
            Done (length (pending sb)) True, Done (length (pending sb)) True] sb)) =
          Some (m\<lparr>delivered := True\<rparr>)"
    and "filter (\<lambda>(t, e). e = MessageDelivered i)
           (emissions (drop (length (trace sb))
              (trace (run [Recv C (On_registerUser receiverId),
                 Done (length (pending sb)) True, Done (length (pending sb)) True] sb)))) =
         (case reg_get (userSockets (run [Recv C (On_registerUser receiverId),
                 Done (length (pending sb)) True, Done (length (pending sb)) True] sb))
                 (sender_id m) of
            Some x \<Rightarrow> [(Some x, MessageDelivered i)]
          | None \<Rightarrow> [])"
proof -
  let ?sc = "run [Recv C (On_registerUser receiverId),
            Done (length (pending sb)) True, Done (length (pending sb)) True] sb"
  note rd = register_done[OF c]
  have msgs: "messages ?sc = mark_delivered receiverId (messages sb)"
    by (simp only: rd) simp
  have reg: "userSockets ?sc = reg_set receiverId C (userSockets sb)"
    by (simp only: rd) simp
  have new: "drop (length (trace sb)) (trace ?sc) =
      [Query (MarkDelivered receiverId), Console (All_marked_delivered receiverId),
       Query (SelectUnread receiverId)] @
      List.map_filter (receipt (reg_set receiverId C (userSockets sb)))
        (select_unread receiverId (mark_delivered receiverId (messages sb)))"
    by (simp only: rd) simp
  show "find_message i (messages ?sc) = Some (m\<lparr>delivered := True\<rparr>)"
    unfolding msgs using f r by (simp add: find_mark_delivered delivered_update_id)
  have "filter (\<lambda>x. message_id x = i)
          (select_unread receiverId (mark_delivered receiverId (messages sb))) =
        select_unread receiverId (mark_delivered receiverId [m])"
    by (simp add: filter_id_select_unread filter_id_mark_delivered distinct_find_filter[OF d f])
  also have "\<dots> = [m\<lparr>delivered := True\<rparr>]"
    using r u by (simp add: select_unread_def mark_delivered_def delivered_update_id)
  finally have rows: "filter (\<lambda>x. message_id x = i)
          (select_unread receiverId (mark_delivered receiverId (messages sb))) =
        [m\<lparr>delivered := True\<rparr>]" .
  have mid: "message_id m = i"
    using find_holds[of "\<lambda>m. message_id m = i" "messages sb" m] f
    by (simp add: find_message_def)
  show "filter (\<lambda>(t, e). e = MessageDelivered i)
           (emissions (drop (length (trace sb)) (trace ?sc))) =
         (case reg_get (userSockets ?sc) (sender_id m) of
            Some x \<Rightarrow> [(Some x, MessageDelivered i)]
          | None \<Rightarrow> [])"
    unfolding new reg
    by (simp add: delivered_receipts_of rows receipt_def mid split: option.split)
qed

lemma find_message_kept:
  "rows_kept ms ms' \<Longrightarrow> find_message i ms = Some m \<Longrightarrow>
   \<exists>m'. find_message i ms' = Some m' \<and> row_kept m m'"
proof (induction ms ms' rule: rows_kept.induct)
  case (1 ms')
  then show ?case by (simp add: find_message_def)
next
  case (2 m ms)
  then show ?case by simp
next
  case (3 x ms x' ms')
  show ?case
  proof (cases "message_id x = i")
    case True
    with 3 show ?thesis by (auto simp: find_message_def row_kept_def)
  next
    case False
    with 3 show ?thesis by (auto simp: find_message_def row_kept_def)
  qed
qed

lemma find_message_fresh:
  "list_all (\<lambda>k. k < n) (map message_id ms) \<Longrightarrow> message_id x = n \<Longrightarrow>
   find_message n (ms @ [x]) = Some x"
  by (induction ms) (auto simp: find_message_def)

lemma filter_id_of_find:
  "distinct (map message_id ms) \<Longrightarrow>
   filter (\<lambda>x. message_id x = i) ms = (case find_message i ms of Some m \<Rightarrow> [m] | None \<Rightarrow> [])"
proof (cases "find_message i ms")
  case None
  then have "filter (\<lambda>x. message_id x = i) ms = []"
    by (auto simp: find_message_def find_None_iff filter_empty_conv)
  with None show ?thesis by simp
next
  case (Some m)
  assume "distinct (map message_id ms)"
  with Some show ?thesis by (simp add: distinct_find_filter)
qed

lemma backlog_receipts_for:
  assumes "distinct (map message_id ms)"
  shows "filter (\<lambda>(t, e). e = MessageDelivered i)
           (emissions (List.map_filter (receipt reg) (select_unread u ms))) =
         (case find_message i ms of
            Some m \<Rightarrow>
              if receiver_id m = u \<and> delivered m \<and> \<not> is_read m
              then (case reg_get reg (sender_id m) of
                      Some x \<Rightarrow> [(Some x, MessageDelivered i)]
                    | None \<Rightarrow> [])
              else []
          | None \<Rightarrow> [])"
proof -
  have "filter (\<lambda>(t, e). e = MessageDelivered i)
           (emissions (List.map_filter (receipt reg) (select_unread u ms))) =
        emissions (List.map_filter (receipt reg)
           (select_unread u (case find_message i ms of Some m \<Rightarrow> [m] | None \<Rightarrow> [])))"
    by (simp add: delivered_receipts_of filter_id_select_unread filter_id_of_find[OF assms])
  also have "\<dots> = (case find_message i ms of
            Some m \<Rightarrow>
              if receiver_id m = u \<and> delivered m \<and> \<not> is_read m
              then (case reg_get reg (sender_id m) of
                      Some x \<Rightarrow> [(Some x, MessageDelivered i)]
                    | None \<Rightarrow> [])
              else []
          | None \<Rightarrow> [])"
  proof (cases "find_message i ms")
    case None
    then show ?thesis by (simp add: select_unread_def)
  next
    case (Some m)
    have "message_id m = i"
      using find_holds[of "\<lambda>m. message_id m = i" ms m] Some by (simp add: find_message_def)
    with Some show ?thesis
      by (simp add: select_unread_def receipt_def split: option.split)
  qed
  finally show ?thesis .
qed

subsection \<open>One callback, in any state\<close>

lemma insert_done:
  "j < length (pending s) \<Longrightarrow>
   pending s ! j = InsertMessage senderId receiverId body tempId None ss \<Longrightarrow>
   step (Done j True) s =
     s\<lparr>pending := drop_nth j (pending s),
       messages := messages s @ [new_row (next_id s) senderId receiverId body False],
       next_id := Suc (next_id s),
       trace := trace s @ [Emit ss (MessageSaved tempId (next_id s))]\<rparr>"
  by (simp add: emit_def Let_def)

lemma mark_done_pending:
  "k < length (pending s) \<Longrightarrow> pending s ! k = MarkDelivered u \<Longrightarrow>
   pending (step (Done k True) s) = drop_nth k (pending s) @ [SelectUnread u]"
  by (simp add: issue_def console_def)

lemma select_done_trace:
  "l < length (pending s) \<Longrightarrow> pending s ! l = SelectUnread u \<Longrightarrow>
   trace (step (Done l True) s) =
     trace s @ List.map_filter (receipt (userSockets s)) (select_unread u (messages s))"
  by (simp add: foldl_notify)

subsection \<open>A row inserted before the delivered-mark completes\<close>

lemma delivered_after_mark:
  assumes ok: "store_ok sa"
    and j: "j < length (pending sa)"
    and ins: "pending sa ! j = InsertMessage senderId receiverId body tempId None ss"
    and k: "k < length (pending (run (Done j True # mida) sa))"
    and mark: "pending (run (Done j True # mida) sa) ! k = MarkDelivered receiverId"
  shows "\<exists>m. find_message (next_id sa)
               (messages (run (Done j True # mida @ Done k True # midb) sa)) = Some m
             \<and> sender_id m = senderId \<and> receiver_id m = receiverId \<and> delivered m"
proof -
  let ?i = "next_id sa"
  let ?row = "new_row ?i senderId receiverId body False"
  let ?s1 = "step (Done j True) sa"
  let ?s2 = "run mida ?s1"
  let ?s3 = "step (Done k True) ?s2"
  have m1: "messages ?s1 = messages sa @ [?row]"
    using j ins by (simp add: messages_Done del: step.simps)
  from ok have "find_message ?i (messages ?s1) = Some ?row"
    unfolding m1 by (intro find_message_fresh) (simp_all add: store_ok_def new_row_def)
  with find_message_kept[OF rows_kept_run[of ?s1 mida]]
  obtain m2 where m2: "find_message ?i (messages ?s2) = Some m2" "row_kept ?row m2"
    by blast
  have k': "k < length (pending ?s2)" and mark': "pending ?s2 ! k = MarkDelivered receiverId"
    using k mark by simp_all
  have "messages ?s3 = mark_delivered receiverId (messages ?s2)"
    using k' mark' by (simp add: messages_Done del: step.simps)
  with m2 have m3: "find_message ?i (messages ?s3) = Some (m2\<lparr>delivered := True\<rparr>)"
    by (simp add: find_mark_delivered row_kept_def new_row_def delivered_update_id)
  with find_message_kept[OF rows_kept_run[of ?s3 midb]]
  obtain m4 where m4: "find_message ?i (messages (run midb ?s3)) = Some m4"
      "row_kept (m2\<lparr>delivered := True\<rparr>) m4"
    by blast
  have "run (Done j True # mida @ Done k True # midb) sa = run midb ?s3"
    by (simp add: run_append)
  with m4 m2(2) show ?thesis
    by (auto simp: row_kept_def new_row_def)
qed

lemma backlog_receipt_at:
  assumes d: "distinct (map message_id (messages S))"
    and l: "l < length (pending S)"
    and sel: "pending S ! l = SelectUnread receiverId"
    and m: "find_message i (messages S) = Some m" "sender_id m = senderId"
      "receiver_id m = receiverId" "delivered m"
  shows "filter (\<lambda>(t, e). e = MessageDelivered i)
           (emissions (drop (length (trace S)) (trace (step (Done l True) S)))) =
         (if map_option is_read (find_message i (messages S)) = Some False
          then (case reg_get (userSockets S) senderId of
                  Some x \<Rightarrow> [(Some x, MessageDelivered i)]
                | None \<Rightarrow> [])
          else [])"
  unfolding select_done_trace[OF l sel]
  by (simp add: backlog_receipts_for[OF d] m)

lemma backlog_receipt_after_mark:
  assumes ok: "store_ok sa"
    and j: "j < length (pending sa)"
    and ins: "pending sa ! j = InsertMessage senderId receiverId body tempId None ss"
    and k: "k < length (pending (run (Done j True # mida) sa))"
    and mark: "pending (run (Done j True # mida) sa) ! k = MarkDelivered receiverId"
    and l: "l < length (pending (run (Done j True # mida @ Done k True # midb) sa))"
    and sel: "pending (run (Done j True # mida @ Done k True # midb) sa) ! l =
                SelectUnread receiverId"
  shows "filter (\<lambda>(t, e). e = MessageDelivered (next_id sa))
           (emissions (drop (length (trace (run (Done j True # mida @ Done k True # midb) sa)))
              (trace (step (Done l True)
                 (run (Done j True # mida @ Done k True # midb) sa))))) =
         (if map_option is_read (find_message (next_id sa)
               (messages (run (Done j True # mida @ Done k True # midb) sa))) = Some False
          then (case reg_get (userSockets (run (Done j True # mida @ Done k True # midb) sa))
                       senderId of
                  Some x \<Rightarrow> [(Some x, MessageDelivered (next_id sa))]
                | None \<Rightarrow> [])
          else [])"
proof -
  from delivered_after_mark[OF ok j ins k mark, of midb]
  obtain m where m: "find_message (next_id sa)
        (messages (run (Done j True # mida @ Done k True # midb) sa)) = Some m"
      "sender_id m = senderId" "receiver_id m = receiverId" "delivered m"
    by blast
  have "store_ok (run (Done j True # mida @ Done k True # midb) sa)"
    using ok by (rule store_ok_run)
  then have d: "distinct (map message_id
      (messages (run (Done j True # mida @ Done k True # midb) sa)))"
    by (simp only: store_ok_def)
  show ?thesis
    by (rule backlog_receipt_at[OF d l sel m])
qed

text \<open>
  The registry object on keys beyond the array indices: they keep the order in which
  they were added, after every array index.
\<close>

lemma reg_set_enumeration_order:
  "reg_set 7 ''C'' (reg_set 4294967295 ''B'' (reg_set 4294967296 ''A'' [])) =
     [(7, ''C''), (4294967296, ''A''), (4294967295, ''B'')]"
  by (simp add: is_array_index_def enumerated_before_def)

text \<open>The definitions unfolded to evaluate a run on concrete events.\<close>

lemmas server_defs =
  init_def registerUser_def sendMessage_def messageRead_def typing_def stopTyping_def
  disconnect_def issue_def emit_def console_def drop_nth_def mark_delivered_def
  select_unread_def count_unread_def mark_read_def new_row_def notify_sender_def
  find_message_def read_implies_delivered_def row_kept_def is_array_index_def
  enumerated_before_def store_ok_def Let_def

section \<open>The claims\<close>

text \<open>
  C1. Across every run of events and query completions, each row of the table is kept:
  its \<^verbatim>\<open>delivered\<close> and \<^verbatim>\<open>is_read\<close> flags are never unset once true. The invariant
  that a read row is delivered is kept by every run in which no read update that
  succeeds names a row not yet delivered; the handler issues the read update for the
  ids the client names and does not look at \<^verbatim>\<open>delivered\<close>.
\<close>

theorem delivered_monotonic:
  "rows_kept (messages s) (messages (run acts s))
   \<and> (read_implies_delivered (messages s) \<and> reads_after_delivery acts s \<longrightarrow>
        read_implies_delivered (messages (run acts s)))"
  by (simp add: rows_kept_run rid_run)

theorem delivered_monotonic_witness:
  "rows_kept
     (messages (run [Recv ''A'' (On_sendMessage 1 2 ''hi'' ''t1''), Done 0 True] init))
     (messages (run [Recv ''B'' (On_registerUser 2), Done 0 True, Done 0 True,
                     Recv ''B'' (On_messageRead (Some [1]) 1 2), Done 0 True]
        (run [Recv ''A'' (On_sendMessage 1 2 ''hi'' ''t1''), Done 0 True] init)))
   \<and> read_implies_delivered
       (messages (run [Recv ''A'' (On_sendMessage 1 2 ''hi'' ''t1''), Done 0 True] init))
   \<and> reads_after_delivery
       [Recv ''B'' (On_registerUser 2), Done 0 True, Done 0 True,
        Recv ''B'' (On_messageRead (Some [1]) 1 2), Done 0 True]
       (run [Recv ''A'' (On_sendMessage 1 2 ''hi'' ''t1''), Done 0 True] init)
   \<and> messages (run [Recv ''B'' (On_registerUser 2), Done 0 True, Done 0 True,
                     Recv ''B'' (On_messageRead (Some [1]) 1 2), Done 0 True]
        (run [Recv ''A'' (On_sendMessage 1 2 ''hi'' ''t1''), Done 0 True] init)) =
     [\<lparr>message_id = 1, sender_id = 1, receiver_id = 2, message_text = ''hi'',
       delivered = True, is_read = True\<rparr>]"
  using delivered_monotonic [of
    "run [Recv ''A'' (On_sendMessage 1 2 ''hi'' ''t1''), Done 0 True] init"
    "[Recv ''B'' (On_registerUser 2), Done 0 True, Done 0 True,
      Recv ''B'' (On_messageRead (Some [1]) 1 2), Done 0 True]"]
  by (simp add: server_defs)

text \<open>
  A read row need not be delivered: user 1 sends to user 2, who is not bound; the row is
  written with \<^verbatim>\<open>delivered\<close> false; a read event naming the row follows, and its update
  sets \<^verbatim>\<open>is_read\<close> on the undelivered row.
\<close>

theorem read_before_delivery_counterexample:
  "messages (run [Recv ''A'' (On_sendMessage 1 2 ''hi'' ''t1''), Done 0 True,
                  Recv ''B'' (On_messageRead (Some [1]) 1 2), Done 0 True] init) =
     [\<lparr>message_id = 1, sender_id = 1, receiver_id = 2, message_text = ''hi'',
       delivered = False, is_read = True\<rparr>]"
  by (simp add: server_defs)

text \<open>
  C2. For every sequence of register and disconnect events on one user identifier,
  started on an empty registry, the registry maps the user to the connection the spec's
  register and unbind leave it with: the most recently registered one, unless that
  connection has disconnected since. After register(u,A), register(u,B), disconnect(A)
  with A and B different, the lookup of u gives B, from any state. A disconnect of a
  connection other than the one a user is bound to leaves that user's binding, and a
  disconnect of a connection bound to no user changes nothing.
\<close>

theorem latest_registration_wins:
  "(list_all (only_user u) acts \<and> userSockets s = [] \<longrightarrow>
      reg_get (userSockets (run acts s)) u = spec_binding u None acts)
   \<and> (A \<noteq> B \<longrightarrow>
      reg_get (userSockets (run [Recv A (On_registerUser u), Recv B (On_registerUser u),
                                 Recv A On_disconnect] sa)) u = Some B)
   \<and> (reg_get (userSockets sb) u = Some B \<and> A \<noteq> B \<longrightarrow>
      reg_get (userSockets (step (Recv A On_disconnect) sb)) u = Some B)
   \<and> (A \<notin> snd ` set (userSockets s) \<longrightarrow> step (Recv A On_disconnect) s = s)"
proof (intro conjI impI)
  assume "list_all (only_user u) acts \<and> userSockets s = []"
  then show "reg_get (userSockets (run acts s)) u = spec_binding u None acts"
    using single_user_run[of acts u s None]
    by (auto simp: single_binding_def list_all_iff split: option.splits)
next
  assume "A \<noteq> B"
  then show "reg_get (userSockets (run [Recv A (On_registerUser u), Recv B (On_registerUser u),
                                 Recv A On_disconnect] sa)) u = Some B"
    by (auto simp: registerUser_def disconnect_def reg_get_unbind_other)
next
  assume "reg_get (userSockets sb) u = Some B \<and> A \<noteq> B"
  then show "reg_get (userSockets (step (Recv A On_disconnect) sb)) u = Some B"
    by (auto simp: disconnect_def reg_get_unbind_other)
next
  assume "A \<notin> snd ` set (userSockets s)"
  then show "step (Recv A On_disconnect) s = s"
    by (simp add: disconnect_def reg_unbind_absent)
qed

theorem latest_registration_wins_witness:
  "list_all (only_user 7)
     [Recv ''A'' (On_registerUser 7), Done 0 True, Recv ''B'' (On_registerUser 7),
      Recv ''A'' On_disconnect, Recv ''B'' On_disconnect, Recv ''C'' (On_registerUser 7)]
   \<and> userSockets init = []
   \<and> reg_get (userSockets (run [Recv ''A'' (On_registerUser 7), Done 0 True,
        Recv ''B'' (On_registerUser 7), Recv ''A'' On_disconnect, Recv ''B'' On_disconnect,
        Recv ''C'' (On_registerUser 7)] init)) 7 = Some ''C''
   \<and> ''A'' \<noteq> ''B''
   \<and> reg_get (userSockets (run [Recv ''A'' (On_registerUser 7), Recv ''B'' (On_registerUser 7),
        Recv ''A'' On_disconnect] init)) 7 = Some ''B''
   \<and> reg_get (userSockets (step (Recv ''B'' (On_registerUser 7)) init)) 7 = Some ''B''
   \<and> reg_get (userSockets (step (Recv ''A'' On_disconnect)
        (step (Recv ''B'' (On_registerUser 7)) init))) 7 = Some ''B''
   \<and> ''A'' \<notin> snd ` set (userSockets init)
   \<and> step (Recv ''A'' On_disconnect) init = init"
  using latest_registration_wins [where u = 7 and s = init and A = "''A''" and B = "''B''"
    and sa = init and sb = "step (Recv ''B'' (On_registerUser 7)) init"
    and acts = "[Recv ''A'' (On_registerUser 7), Done 0 True, Recv ''B'' (On_registerUser 7),
      Recv ''A'' On_disconnect, Recv ''B'' On_disconnect, Recv ''C'' (On_registerUser 7)]"]
  by (simp add: server_defs)

text \<open>
  C3. A send event whose receiver is not bound when it arrives issues the insert with
  \<^verbatim>\<open>delivered\<close> false and the sender's binding of that moment. Whenever that insert
  succeeds, the row is written undelivered and unread, the one emission is messageSaved
  to the captured binding, and no further query is issued. A registration of the
  receiver that changes the binding issues the bulk delivered-mark, whose callback issues
  the backlog query. If the delivered-mark succeeds after the insert has (whatever
  happens in between, on a table with generated keys), the row is delivered from then on;
  and when a backlog query for the receiver succeeds after that, the messageDelivered
  emissions it makes for the row are exactly one, to the connection the sender is bound
  to at that moment, if the row is still unread and the sender is bound, and none
  otherwise.
\<close>

theorem offline_send_delivered_on_registration:
  "(reg_get (userSockets s) receiverId = None \<longrightarrow>
      step (Recv c (On_sendMessage senderId receiverId body tempId)) s =
        s\<lparr>pending := pending s @
             [InsertMessage senderId receiverId body tempId None
                (reg_get (userSockets s) senderId)],
          trace := trace s @
             [Query (InsertMessage senderId receiverId body tempId None
                       (reg_get (userSockets s) senderId))]\<rparr>)
   \<and> (j < length (pending sa) \<and>
       pending sa ! j = InsertMessage senderId receiverId body tempId None ss \<longrightarrow>
      step (Done j True) sa =
        sa\<lparr>pending := drop_nth j (pending sa),
           messages := messages sa @ [new_row (next_id sa) senderId receiverId body False],
           next_id := Suc (next_id sa),
           trace := trace sa @ [Emit ss (MessageSaved tempId (next_id sa))]\<rparr>)
   \<and> (reg_get (userSockets sr) receiverId \<noteq> Some C \<longrightarrow>
      step (Recv C (On_registerUser receiverId)) sr =
        sr\<lparr>userSockets := reg_set receiverId C (userSockets sr),
           pending := pending sr @ [MarkDelivered receiverId],
           trace := trace sr @ [Query (MarkDelivered receiverId)]\<rparr>)
   \<and> (k < length (pending sm) \<and> pending sm ! k = MarkDelivered receiverId \<longrightarrow>
      pending (step (Done k True) sm) = drop_nth k (pending sm) @ [SelectUnread receiverId])
   \<and> (store_ok sa \<and> j < length (pending sa) \<and>
       pending sa ! j = InsertMessage senderId receiverId body tempId None ss \<and>
       k < length (pending (run (Done j True # mida) sa)) \<and>
       pending (run (Done j True # mida) sa) ! k = MarkDelivered receiverId \<longrightarrow>
      map_option (\<lambda>m. (sender_id m, receiver_id m, delivered m))
        (find_message (next_id sa)
           (messages (run (Done j True # mida @ Done k True # midb) sa))) =
        Some (senderId, receiverId, True)
      \<and> (l < length (pending (run (Done j True # mida @ Done k True # midb) sa)) \<and>
         pending (run (Done j True # mida @ Done k True # midb) sa) ! l =
           SelectUnread receiverId \<longrightarrow>
         filter (\<lambda>(t, e). e = MessageDelivered (next_id sa))
           (emissions (drop (length (trace (run (Done j True # mida @ Done k True # midb) sa)))
              (trace (step (Done l True)
                 (run (Done j True # mida @ Done k True # midb) sa))))) =
         (if map_option is_read (find_message (next_id sa)
               (messages (run (Done j True # mida @ Done k True # midb) sa))) = Some False
          then (case reg_get (userSockets (run (Done j True # mida @ Done k True # midb) sa))
                       senderId of
                  Some x \<Rightarrow> [(Some x, MessageDelivered (next_id sa))]
                | None \<Rightarrow> [])
          else [])))"
proof (intro conjI impI)
  assume "reg_get (userSockets s) receiverId = None"
  then show "step (Recv c (On_sendMessage senderId receiverId body tempId)) s =
        s\<lparr>pending := pending s @
             [InsertMessage senderId receiverId body tempId None
                (reg_get (userSockets s) senderId)],
          trace := trace s @
             [Query (InsertMessage senderId receiverId body tempId None
                       (reg_get (userSockets s) senderId))]\<rparr>"
    by (simp add: sendMessage_def issue_def Let_def)
next
  assume "j < length (pending sa) \<and>
       pending sa ! j = InsertMessage senderId receiverId body tempId None ss"
  then show "step (Done j True) sa =
        sa\<lparr>pending := drop_nth j (pending sa),
           messages := messages sa @ [new_row (next_id sa) senderId receiverId body False],
           next_id := Suc (next_id sa),
           trace := trace sa @ [Emit ss (MessageSaved tempId (next_id sa))]\<rparr>"
    by (intro insert_done) simp_all
next
  assume "reg_get (userSockets sr) receiverId \<noteq> Some C"
  then show "step (Recv C (On_registerUser receiverId)) sr =
        sr\<lparr>userSockets := reg_set receiverId C (userSockets sr),
           pending := pending sr @ [MarkDelivered receiverId],
           trace := trace sr @ [Query (MarkDelivered receiverId)]\<rparr>"
    by (simp add: registerUser_def issue_def)
next
  assume "k < length (pending sm) \<and> pending sm ! k = MarkDelivered receiverId"
  then show "pending (step (Done k True) sm) =
      drop_nth k (pending sm) @ [SelectUnread receiverId]"
    by (intro mark_done_pending) simp_all
next
  assume "store_ok sa \<and> j < length (pending sa) \<and>
       pending sa ! j = InsertMessage senderId receiverId body tempId None ss \<and>
       k < length (pending (run (Done j True # mida) sa)) \<and>
       pending (run (Done j True # mida) sa) ! k = MarkDelivered receiverId"
  then obtain m where "find_message (next_id sa)
        (messages (run (Done j True # mida @ Done k True # midb) sa)) = Some m"
      "sender_id m = senderId" "receiver_id m = receiverId" "delivered m"
    using delivered_after_mark[of sa j senderId receiverId body tempId ss k mida midb]
    by blast
  then show "map_option (\<lambda>m. (sender_id m, receiver_id m, delivered m))
        (find_message (next_id sa)
           (messages (run (Done j True # mida @ Done k True # midb) sa))) =
        Some (senderId, receiverId, True)"
    by simp
next
  assume "store_ok sa \<and> j < length (pending sa) \<and>
       pending sa ! j = InsertMessage senderId receiverId body tempId None ss \<and>
       k < length (pending (run (Done j True # mida) sa)) \<and>
       pending (run (Done j True # mida) sa) ! k = MarkDelivered receiverId"
    and "l < length (pending (run (Done j True # mida @ Done k True # midb) sa)) \<and>
         pending (run (Done j True # mida @ Done k True # midb) sa) ! l =
           SelectUnread receiverId"
  then show "filter (\<lambda>(t, e). e = MessageDelivered (next_id sa))
           (emissions (drop (length (trace (run (Done j True # mida @ Done k True # midb) sa)))
              (trace (step (Done l True)
                 (run (Done j True # mida @ Done k True # midb) sa))))) =
         (if map_option is_read (find_message (next_id sa)
               (messages (run (Done j True # mida @ Done k True # midb) sa))) = Some False
          then (case reg_get (userSockets (run (Done j True # mida @ Done k True # midb) sa))
                       senderId of
                  Some x \<Rightarrow> [(Some x, MessageDelivered (next_id sa))]
                | None \<Rightarrow> [])
          else [])"
    by (intro backlog_receipt_after_mark) blast+
qed

text \<open>
  The witness: user 1 is bound to A and sends to user 2, who is not bound; user 2
  registers on B before the insert has completed; then the insert completes, a typing
  event passes, the delivered-mark completes and the backlog query completes.
\<close>

theorem offline_send_delivered_on_registration_witness:
  "reg_get (userSockets (run [Recv ''A'' (On_registerUser 1), Done 0 True, Done 0 True] init)) 2 = None
   \<and> step (Recv ''A'' (On_sendMessage 1 2 ''hi'' ''t1''))
         (run [Recv ''A'' (On_registerUser 1), Done 0 True, Done 0 True] init) =
     \<lparr>userSockets = [(1, ''A'')], messages = [], next_id = 1,
      pending = [InsertMessage 1 2 ''hi'' ''t1'' None (Some ''A'')],
      trace = [Query (MarkDelivered 1), Console (All_marked_delivered 1), Query (SelectUnread 1),
               Query (InsertMessage 1 2 ''hi'' ''t1'' None (Some ''A''))]\<rparr>
   \<and> reg_get (userSockets (step (Recv ''A'' (On_sendMessage 1 2 ''hi'' ''t1''))
         (run [Recv ''A'' (On_registerUser 1), Done 0 True, Done 0 True] init))) 2 \<noteq> Some ''B''
   \<and> store_ok
         (run [Recv ''A'' (On_sendMessage 1 2 ''hi'' ''t1''), Recv ''B'' (On_registerUser 2)]
            (run [Recv ''A'' (On_registerUser 1), Done 0 True, Done 0 True] init))
   \<and> pending
         (run [Recv ''A'' (On_sendMessage 1 2 ''hi'' ''t1''), Recv ''B'' (On_registerUser 2)]
            (run [Recv ''A'' (On_registerUser 1), Done 0 True, Done 0 True] init)) =
       [InsertMessage 1 2 ''hi'' ''t1'' None (Some ''A''), MarkDelivered 2]
   \<and> messages (step (Done 0 True)
         (run [Recv ''A'' (On_sendMessage 1 2 ''hi'' ''t1''), Recv ''B'' (On_registerUser 2)]
            (run [Recv ''A'' (On_registerUser 1), Done 0 True, Done 0 True] init))) =
       [\<lparr>message_id = 1, sender_id = 1, receiver_id = 2, message_text = ''hi'',
         delivered = False, is_read = False\<rparr>]
   \<and> emissions (trace (step (Done 0 True)
         (run [Recv ''A'' (On_sendMessage 1 2 ''hi'' ''t1''), Recv ''B'' (On_registerUser 2)]
            (run [Recv ''A'' (On_registerUser 1), Done 0 True, Done 0 True] init)))) =
       [(Some ''A'', MessageSaved ''t1'' 1)]
   \<and> pending (run [Done 0 True, Recv ''A'' (On_typing 1 2)]
         (run [Recv ''A'' (On_sendMessage 1 2 ''hi'' ''t1''), Recv ''B'' (On_registerUser 2)]
            (run [Recv ''A'' (On_registerUser 1), Done 0 True, Done 0 True] init))) =
       [MarkDelivered 2]
   \<and> pending (step (Done 0 True) (run [Done 0 True, Recv ''A'' (On_typing 1 2)]
         (run [Recv ''A'' (On_sendMessage 1 2 ''hi'' ''t1''), Recv ''B'' (On_registerUser 2)]
            (run [Recv ''A'' (On_registerUser 1), Done 0 True, Done 0 True] init)))) =
       [SelectUnread 2]
   \<and> map_option (\<lambda>m. (sender_id m, receiver_id m, delivered m))
       (find_message 1 (messages (run [Done 0 True, Recv ''A'' (On_typing 1 2), Done 0 True]
         (run [Recv ''A'' (On_sendMessage 1 2 ''hi'' ''t1''), Recv ''B'' (On_registerUser 2)]
            (run [Recv ''A'' (On_registerUser 1), Done 0 True, Done 0 True] init))))) =
       Some (1, 2, True)
   \<and> pending (run [Done 0 True, Recv ''A'' (On_typing 1 2), Done 0 True]
         (run [Recv ''A'' (On_sendMessage 1 2 ''hi'' ''t1''), Recv ''B'' (On_registerUser 2)]
            (run [Recv ''A'' (On_registerUser 1), Done 0 True, Done 0 True] init))) =
       [SelectUnread 2]
   \<and> filter (\<lambda>(t, e). e = MessageDelivered 1)
       (emissions (drop 9 (trace (step (Done 0 True)
          (run [Done 0 True, Recv ''A'' (On_typing 1 2), Done 0 True]
         (run [Recv ''A'' (On_sendMessage 1 2 ''hi'' ''t1''), Recv ''B'' (On_registerUser 2)]
            (run [Recv ''A'' (On_registerUser 1), Done 0 True, Done 0 True] init))))))) =
       [(Some ''A'', MessageDelivered 1)]"
  using offline_send_delivered_on_registration [where
    s = "run [Recv ''A'' (On_registerUser 1), Done 0 True, Done 0 True] init"
    and c = "''A''" and senderId = 1 and receiverId = 2 and body = "''hi''" and tempId = "''t1''"
    and sa = "run [Recv ''A'' (On_sendMessage 1 2 ''hi'' ''t1''), Recv ''B'' (On_registerUser 2)]
               (run [Recv ''A'' (On_registerUser 1), Done 0 True, Done 0 True] init)"
    and j = 0 and ss = "Some ''A''"
    and sr = "step (Recv ''A'' (On_sendMessage 1 2 ''hi'' ''t1''))
               (run [Recv ''A'' (On_registerUser 1), Done 0 True, Done 0 True] init)"
    and C = "''B''"
    and sm = "run [Done 0 True, Recv ''A'' (On_typing 1 2)]
               (run [Recv ''A'' (On_sendMessage 1 2 ''hi'' ''t1''), Recv ''B'' (On_registerUser 2)]
                  (run [Recv ''A'' (On_registerUser 1), Done 0 True, Done 0 True] init))"
    and k = 0 and mida = "[Recv ''A'' (On_typing 1 2)]" and midb = "[]" and l = 0]
  by (simp add: server_defs)

text \<open>
  Two runs in which the receiver is not bound at the send and registers afterwards, with
  every query succeeding, and no messageDelivered is emitted. In the first the row is
  read before the receiver registers: it ends delivered, the sender is still bound. In
  the second the delivered-mark and the backlog query complete before the insert does:
  the row stays undelivered.
\<close>

theorem offline_send_read_first_counterexample:
  "reg_get (userSockets (run [Recv ''A'' (On_registerUser 1), Done 0 True, Done 0 True] init)) 2
     = None
   \<and> messages (run [Recv ''A'' (On_registerUser 1), Done 0 True, Done 0 True,
        Recv ''A'' (On_sendMessage 1 2 ''hi'' ''t1''), Done 0 True,
        Recv ''B'' (On_messageRead (Some [1]) 1 2), Done 0 True,
        Recv ''B'' (On_registerUser 2), Done 0 True, Done 0 True] init) =
     [\<lparr>message_id = 1, sender_id = 1, receiver_id = 2, message_text = ''hi'',
       delivered = True, is_read = True\<rparr>]
   \<and> reg_get (userSockets (run [Recv ''A'' (On_registerUser 1), Done 0 True, Done 0 True,
        Recv ''A'' (On_sendMessage 1 2 ''hi'' ''t1''), Done 0 True,
        Recv ''B'' (On_messageRead (Some [1]) 1 2), Done 0 True,
        Recv ''B'' (On_registerUser 2), Done 0 True, Done 0 True] init)) 1 = Some ''A''
   \<and> emissions (trace (run [Recv ''A'' (On_registerUser 1), Done 0 True, Done 0 True,
        Recv ''A'' (On_sendMessage 1 2 ''hi'' ''t1''), Done 0 True,
        Recv ''B'' (On_messageRead (Some [1]) 1 2), Done 0 True,
        Recv ''B'' (On_registerUser 2), Done 0 True, Done 0 True] init)) =
     [(Some ''A'', MessageSaved ''t1'' 1), (Some ''A'', MessageRead 2 [1])]
   \<and> run [Recv ''A'' (On_registerUser 1), Done 0 True, Done 0 True,
        Recv ''A'' (On_sendMessage 1 2 ''hi'' ''t1''), Recv ''B'' (On_registerUser 2),
        Done 1 True, Done 1 True, Done 0 True] init =
     \<lparr>userSockets = [(1, ''A''), (2, ''B'')],
      messages = [\<lparr>message_id = 1, sender_id = 1, receiver_id = 2, message_text = ''hi'',
                   delivered = False, is_read = False\<rparr>],
      next_id = 2, pending = [],
      trace = [Query (MarkDelivered 1), Console (All_marked_delivered 1), Query (SelectUnread 1),
               Query (InsertMessage 1 2 ''hi'' ''t1'' None (Some ''A'')),
               Query (MarkDelivered 2), Console (All_marked_delivered 2),
               Query (SelectUnread 2), Emit (Some ''A'') (MessageSaved ''t1'' 1)]\<rparr>"
  by (simp add: server_defs)

text \<open>
  C4. Registering a (user, connection) pair that is already the user's binding changes
  nothing: no query is issued, nothing is queued, nothing is emitted. So a registration
  repeated on the same connection, with any of the first one's callbacks run in between,
  is a no-op, and a registration that changes the binding issues the bulk delivered-mark
  once.
\<close>

theorem duplicate_registration_noop:
  "(reg_get (userSockets s1) u = Some c \<longrightarrow> step (Recv c (On_registerUser u)) s1 = s1)
   \<and> (list_all is_completion ds \<longrightarrow>
        step (Recv c (On_registerUser u)) (run ds (step (Recv c (On_registerUser u)) s))
          = run ds (step (Recv c (On_registerUser u)) s))
   \<and> (reg_get (userSockets s) u \<noteq> Some c \<longrightarrow>
        step (Recv c (On_registerUser u)) s =
          s\<lparr>userSockets := reg_set u c (userSockets s),
            pending := pending s @ [MarkDelivered u],
            trace := trace s @ [Query (MarkDelivered u)]\<rparr>)"
proof (intro conjI impI)
  assume "reg_get (userSockets s1) u = Some c"
  then show "step (Recv c (On_registerUser u)) s1 = s1"
    by (simp add: registerUser_def)
next
  assume "list_all is_completion ds"
  then have ds: "\<forall>a\<in>set ds. is_completion a"
    by (simp add: list_all_iff)
  have "reg_get (userSockets (step (Recv c (On_registerUser u)) s)) u = Some c"
    by (simp add: registerUser_def)
  with ds have "reg_get (userSockets (run ds (step (Recv c (On_registerUser u)) s))) u = Some c"
    by (simp add: userSockets_run_completions)
  then show "step (Recv c (On_registerUser u)) (run ds (step (Recv c (On_registerUser u)) s))
          = run ds (step (Recv c (On_registerUser u)) s)"
    by (simp add: registerUser_def)
next
  assume "reg_get (userSockets s) u \<noteq> Some c"
  then show "step (Recv c (On_registerUser u)) s =
          s\<lparr>userSockets := reg_set u c (userSockets s),
            pending := pending s @ [MarkDelivered u],
            trace := trace s @ [Query (MarkDelivered u)]\<rparr>"
    by (simp add: registerUser_def issue_def)
qed

theorem duplicate_registration_noop_witness:
  "reg_get (userSockets (step (Recv ''A'' (On_registerUser 2)) init)) 2 = Some ''A''
   \<and> step (Recv ''A'' (On_registerUser 2)) (step (Recv ''A'' (On_registerUser 2)) init)
       = step (Recv ''A'' (On_registerUser 2)) init
   \<and> list_all is_completion [Done 0 True, Done 0 True]
   \<and> step (Recv ''A'' (On_registerUser 2))
        (run [Done 0 True, Done 0 True] (step (Recv ''A'' (On_registerUser 2)) init))
       = run [Done 0 True, Done 0 True] (step (Recv ''A'' (On_registerUser 2)) init)
   \<and> reg_get (userSockets init) 2 \<noteq> Some ''A''
   \<and> step (Recv ''A'' (On_registerUser 2)) init =
       \<lparr>userSockets = [(2, ''A'')], messages = [], next_id = 1,
        pending = [MarkDelivered 2], trace = [Query (MarkDelivered 2)]\<rparr>"
  using duplicate_registration_noop [of "step (Recv ''A'' (On_registerUser 2)) init" 2 "''A''"
    "[Done 0 True, Done 0 True]" init]
  by (simp add: server_defs)

text \<open>
  C5. A send event whose receiver is online, with its two callbacks: the trace grows by
  the insert, messageSaved to the sender's binding, the count query, unreadMessagesCount
  to the receiver, receiveMessage to the receiver, messageDelivered to the sender's
  binding, in this order. After the insert's callback alone, messageSaved is the only
  emission and the count query is in flight; and whenever that count query completes,
  whatever happened in between, its callback emits unreadMessagesCount, receiveMessage
  and messageDelivered in this order. Likewise the insert's callback, in whatever state
  it runs, emits messageSaved to the captured binding and only then issues the count
  query.
\<close>

theorem send_online_emission_order:
  "(reg_get (userSockets s) receiverId = Some rc \<longrightarrow>
     trace (run [Recv c (On_sendMessage senderId receiverId body tempId),
                 Done (length (pending s)) True] s) =
       trace s @
         [Query (InsertMessage senderId receiverId body tempId (Some rc)
                   (reg_get (userSockets s) senderId)),
          Emit (reg_get (userSockets s) senderId) (MessageSaved tempId (next_id s)),
          Query (CountUnread receiverId rc (reg_get (userSockets s) senderId)
                   (next_id s) senderId body)]
     \<and> emissions (trace (run [Recv c (On_sendMessage senderId receiverId body tempId),
                 Done (length (pending s)) True, Done (length (pending s)) True] s)) =
       emissions (trace s) @
         [(reg_get (userSockets s) senderId, MessageSaved tempId (next_id s)),
          (Some rc, UnreadMessagesCount
             (count_unread receiverId
                (messages s @ [new_row (next_id s) senderId receiverId body True]))),
          (Some rc, ReceiveMessage (next_id s) senderId body),
          (reg_get (userSockets s) senderId, MessageDelivered (next_id s))])
   \<and> (j < length (pending sb) \<and>
       pending sb ! j = CountUnread receiverId rc senderSocketId messageId senderId body \<longrightarrow>
     trace (step (Done j True) sb) =
       trace sb @
         [Emit (Some rc) (UnreadMessagesCount (count_unread receiverId (messages sb))),
          Emit (Some rc) (ReceiveMessage messageId senderId body),
          Emit senderSocketId (MessageDelivered messageId)])
   \<and> (ji < length (pending si) \<and>
       pending si ! ji =
         InsertMessage senderId receiverId body tempId (Some rc) senderSocketId \<longrightarrow>
     trace (step (Done ji True) si) =
       trace si @
         [Emit senderSocketId (MessageSaved tempId (next_id si)),
          Query (CountUnread receiverId rc senderSocketId (next_id si) senderId body)])"
proof (intro conjI impI)
  assume online: "reg_get (userSockets s) receiverId = Some rc"
  show "trace (run [Recv c (On_sendMessage senderId receiverId body tempId),
                 Done (length (pending s)) True] s) =
       trace s @
         [Query (InsertMessage senderId receiverId body tempId (Some rc)
                   (reg_get (userSockets s) senderId)),
          Emit (reg_get (userSockets s) senderId) (MessageSaved tempId (next_id s)),
          Query (CountUnread receiverId rc (reg_get (userSockets s) senderId)
                   (next_id s) senderId body)]"
    by (simp only: send_saved online) simp
next
  assume online: "reg_get (userSockets s) receiverId = Some rc"
  show "emissions (trace (run [Recv c (On_sendMessage senderId receiverId body tempId),
                 Done (length (pending s)) True, Done (length (pending s)) True] s)) =
       emissions (trace s) @
         [(reg_get (userSockets s) senderId, MessageSaved tempId (next_id s)),
          (Some rc, UnreadMessagesCount
             (count_unread receiverId
                (messages s @ [new_row (next_id s) senderId receiverId body True]))),
          (Some rc, ReceiveMessage (next_id s) senderId body),
          (reg_get (userSockets s) senderId, MessageDelivered (next_id s))]"
    by (simp only: send_online[OF online]) simp
next
  assume "j < length (pending sb) \<and>
       pending sb ! j = CountUnread receiverId rc senderSocketId messageId senderId body"
  then show "trace (step (Done j True) sb) =
       trace sb @
         [Emit (Some rc) (UnreadMessagesCount (count_unread receiverId (messages sb))),
          Emit (Some rc) (ReceiveMessage messageId senderId body),
          Emit senderSocketId (MessageDelivered messageId)]"
    by (simp add: emit_def)
next
  assume "ji < length (pending si) \<and>
       pending si ! ji =
         InsertMessage senderId receiverId body tempId (Some rc) senderSocketId"
  then show "trace (step (Done ji True) si) =
       trace si @
         [Emit senderSocketId (MessageSaved tempId (next_id si)),
          Query (CountUnread receiverId rc senderSocketId (next_id si) senderId body)]"
    by (simp add: emit_def issue_def Let_def)
qed

theorem send_online_emission_order_witness:
  "reg_get (userSockets (run [Recv ''A'' (On_registerUser 1), Recv ''B'' (On_registerUser 2)] init)) 2
     = Some ''B''
   \<and> trace (run [Recv ''A'' (On_sendMessage 1 2 ''hi'' ''t1''), Done 2 True]
        (run [Recv ''A'' (On_registerUser 1), Recv ''B'' (On_registerUser 2)] init)) =
       [Query (MarkDelivered 1), Query (MarkDelivered 2),
        Query (InsertMessage 1 2 ''hi'' ''t1'' (Some ''B'') (Some ''A'')),
        Emit (Some ''A'') (MessageSaved ''t1'' 1),
        Query (CountUnread 2 ''B'' (Some ''A'') 1 1 ''hi'')]
   \<and> emissions (trace (run [Recv ''A'' (On_sendMessage 1 2 ''hi'' ''t1''), Done 2 True, Done 2 True]
        (run [Recv ''A'' (On_registerUser 1), Recv ''B'' (On_registerUser 2)] init))) =
       [(Some ''A'', MessageSaved ''t1'' 1), (Some ''B'', UnreadMessagesCount 1),
        (Some ''B'', ReceiveMessage 1 1 ''hi''), (Some ''A'', MessageDelivered 1)]
   \<and> pending (run [Recv ''A'' (On_sendMessage 1 2 ''hi'' ''t1''), Done 2 True,
                   Recv ''B'' On_disconnect, Done 0 False]
        (run [Recv ''A'' (On_registerUser 1), Recv ''B'' (On_registerUser 2)] init)) =
       [MarkDelivered 2, CountUnread 2 ''B'' (Some ''A'') 1 1 ''hi'']
   \<and> emissions (trace (step (Done 1 True)
        (run [Recv ''A'' (On_sendMessage 1 2 ''hi'' ''t1''), Done 2 True,
              Recv ''B'' On_disconnect, Done 0 False]
           (run [Recv ''A'' (On_registerUser 1), Recv ''B'' (On_registerUser 2)] init)))) =
       [(Some ''A'', MessageSaved ''t1'' 1), (Some ''B'', UnreadMessagesCount 1),
        (Some ''B'', ReceiveMessage 1 1 ''hi''), (Some ''A'', MessageDelivered 1)]
   \<and> pending (run [Recv ''A'' (On_sendMessage 1 2 ''hi'' ''t1''), Recv ''D'' (On_registerUser 1)]
        (run [Recv ''A'' (On_registerUser 1), Recv ''B'' (On_registerUser 2)] init)) =
       [MarkDelivered 1, MarkDelivered 2,
        InsertMessage 1 2 ''hi'' ''t1'' (Some ''B'') (Some ''A''), MarkDelivered 1]
   \<and> trace (step (Done 2 True)
        (run [Recv ''A'' (On_sendMessage 1 2 ''hi'' ''t1''), Recv ''D'' (On_registerUser 1)]
           (run [Recv ''A'' (On_registerUser 1), Recv ''B'' (On_registerUser 2)] init))) =
       [Query (MarkDelivered 1), Query (MarkDelivered 2),
        Query (InsertMessage 1 2 ''hi'' ''t1'' (Some ''B'') (Some ''A'')),
        Query (MarkDelivered 1),
        Emit (Some ''A'') (MessageSaved ''t1'' 1),
        Query (CountUnread 2 ''B'' (Some ''A'') 1 1 ''hi'')]"
  using send_online_emission_order [where
    s = "run [Recv ''A'' (On_registerUser 1), Recv ''B'' (On_registerUser 2)] init"
    and receiverId = 2 and rc = "''B''" and c = "''A''" and senderId = 1 and body = "''hi''"
    and tempId = "''t1''" and j = 1 and senderSocketId = "Some ''A''" and messageId = 1
    and sb = "run [Recv ''A'' (On_sendMessage 1 2 ''hi'' ''t1''), Done 2 True,
                   Recv ''B'' On_disconnect, Done 0 False]
               (run [Recv ''A'' (On_registerUser 1), Recv ''B'' (On_registerUser 2)] init)"
    and ji = 2
    and si = "run [Recv ''A'' (On_sendMessage 1 2 ''hi'' ''t1''), Recv ''D'' (On_registerUser 1)]
               (run [Recv ''A'' (On_registerUser 1), Recv ''B'' (On_registerUser 2)] init)"]
  by (simp add: server_defs)

text \<open>
  C6. A read event with a non-empty messageIds issues the update together with the
  connection the registry holds, at that moment, for the senderId of the payload.
  Whenever that update succeeds, the rows named are marked read, and the emissions are
  one messageRead to the captured connection, or none when that user was not bound when
  the event arrived; the registry of the moment of completion and the sender stored in
  the rows named are not consulted.
\<close>

theorem read_receipt_goes_to_named_sender:
  "(ids \<noteq> [] \<longrightarrow>
     step (Recv c (On_messageRead (Some ids) senderId receiverId)) s =
       s\<lparr>pending := pending s @ [MarkRead ids (reg_get (userSockets s) senderId) receiverId],
         trace := trace s @
           [Query (MarkRead ids (reg_get (userSockets s) senderId) receiverId)]\<rparr>)
   \<and> (j < length (pending sb) \<and> pending sb ! j = MarkRead ids ss receiverId \<longrightarrow>
     emissions (trace (step (Done j True) sb)) =
       emissions (trace sb) @
         (case ss of Some x \<Rightarrow> [(Some x, MessageRead receiverId ids)] | None \<Rightarrow> [])
     \<and> messages (step (Done j True) sb) = mark_read ids (messages sb))
   \<and> (ids \<noteq> [] \<longrightarrow>
     emissions (trace (run [Recv c (On_messageRead (Some ids) senderId receiverId),
                            Done (length (pending s)) True] s)) =
       emissions (trace s) @
         (case reg_get (userSockets s) senderId of
            Some x \<Rightarrow> [(Some x, MessageRead receiverId ids)]
          | None \<Rightarrow> [])
     \<and> messages (run [Recv c (On_messageRead (Some ids) senderId receiverId),
                      Done (length (pending s)) True] s) = mark_read ids (messages s))"
proof (intro conjI impI)
  assume "ids \<noteq> []"
  then show "step (Recv c (On_messageRead (Some ids) senderId receiverId)) s =
       s\<lparr>pending := pending s @ [MarkRead ids (reg_get (userSockets s) senderId) receiverId],
         trace := trace s @
           [Query (MarkRead ids (reg_get (userSockets s) senderId) receiverId)]\<rparr>"
    by (simp add: messageRead_def issue_def Let_def)
next
  assume "j < length (pending sb) \<and> pending sb ! j = MarkRead ids ss receiverId"
  then show "emissions (trace (step (Done j True) sb)) =
       emissions (trace sb) @
         (case ss of Some x \<Rightarrow> [(Some x, MessageRead receiverId ids)] | None \<Rightarrow> [])"
    by (simp add: emit_def Let_def split: option.split)
next
  assume "j < length (pending sb) \<and> pending sb ! j = MarkRead ids ss receiverId"
  then show "messages (step (Done j True) sb) = mark_read ids (messages sb)"
    by (simp add: messages_Done del: step.simps)
next
  assume ids: "ids \<noteq> []"
  show "emissions (trace (run [Recv c (On_messageRead (Some ids) senderId receiverId),
                            Done (length (pending s)) True] s)) =
       emissions (trace s) @
         (case reg_get (userSockets s) senderId of
            Some x \<Rightarrow> [(Some x, MessageRead receiverId ids)]
          | None \<Rightarrow> [])"
    by (simp only: read_done[OF ids]) (simp split: option.split)
next
  assume ids: "ids \<noteq> []"
  show "messages (run [Recv c (On_messageRead (Some ids) senderId receiverId),
                      Done (length (pending s)) True] s) = mark_read ids (messages s)"
    by (simp only: read_done[OF ids]) simp
qed

text \<open>
  The witness: users 1 and 2 are bound to A and B, user 1 has sent message 1 to user 2;
  the read event naming sender 1 arrives; user 1 registers on D before the update
  completes; the receipt goes to A, the connection captured when the event arrived.
\<close>

theorem read_receipt_goes_to_named_sender_witness:
  "[1] \<noteq> ([]::nat list)
   \<and> pending (step (Recv ''B'' (On_messageRead (Some [1]) 1 2))
       (run [Recv ''A'' (On_registerUser 1), Done 0 True, Done 0 True,
            Recv ''B'' (On_registerUser 2), Done 0 True, Done 0 True,
            Recv ''A'' (On_sendMessage 1 2 ''hi'' ''t1''), Done 0 True, Done 0 True] init)) =
     [MarkRead [1] (Some ''A'') 2]
   \<and> pending
       (run [Recv ''A'' (On_registerUser 1), Done 0 True, Done 0 True,
            Recv ''B'' (On_registerUser 2), Done 0 True, Done 0 True,
            Recv ''A'' (On_sendMessage 1 2 ''hi'' ''t1''), Done 0 True, Done 0 True,
            Recv ''B'' (On_messageRead (Some [1]) 1 2), Recv ''D'' (On_registerUser 1)] init) =
     [MarkRead [1] (Some ''A'') 2, MarkDelivered 1]
   \<and> reg_get (userSockets
       (run [Recv ''A'' (On_registerUser 1), Done 0 True, Done 0 True,
            Recv ''B'' (On_registerUser 2), Done 0 True, Done 0 True,
            Recv ''A'' (On_sendMessage 1 2 ''hi'' ''t1''), Done 0 True, Done 0 True,
            Recv ''B'' (On_messageRead (Some [1]) 1 2), Recv ''D'' (On_registerUser 1)] init)) 1 =
     Some ''D''
   \<and> emissions (trace (step (Done 0 True)
       (run [Recv ''A'' (On_registerUser 1), Done 0 True, Done 0 True,
            Recv ''B'' (On_registerUser 2), Done 0 True, Done 0 True,
            Recv ''A'' (On_sendMessage 1 2 ''hi'' ''t1''), Done 0 True, Done 0 True,
            Recv ''B'' (On_messageRead (Some [1]) 1 2), Recv ''D'' (On_registerUser 1)] init))) =
     [(Some ''A'', MessageSaved ''t1'' 1), (Some ''B'', UnreadMessagesCount 1),
      (Some ''B'', ReceiveMessage 1 1 ''hi''), (Some ''A'', MessageDelivered 1),
      (Some ''A'', MessageRead 2 [1])]
   \<and> emissions (trace (run [Recv ''B'' (On_messageRead (Some [1]) 1 2), Done 0 True]
       (run [Recv ''A'' (On_registerUser 1), Done 0 True, Done 0 True,
            Recv ''B'' (On_registerUser 2), Done 0 True, Done 0 True,
            Recv ''A'' (On_sendMessage 1 2 ''hi'' ''t1''), Done 0 True, Done 0 True] init))) =
     [(Some ''A'', MessageSaved ''t1'' 1), (Some ''B'', UnreadMessagesCount 1),
      (Some ''B'', ReceiveMessage 1 1 ''hi''), (Some ''A'', MessageDelivered 1),
      (Some ''A'', MessageRead 2 [1])]"
  using read_receipt_goes_to_named_sender [where ids = "[1]" and c = "''B''" and senderId = 1
    and receiverId = 2 and j = 0 and ss = "Some ''A''"
    and s = "run [Recv ''A'' (On_registerUser 1), Done 0 True, Done 0 True,
                  Recv ''B'' (On_registerUser 2), Done 0 True, Done 0 True,
                  Recv ''A'' (On_sendMessage 1 2 ''hi'' ''t1''), Done 0 True, Done 0 True] init"
    and sb = "run [Recv ''A'' (On_registerUser 1), Done 0 True, Done 0 True,
                   Recv ''B'' (On_registerUser 2), Done 0 True, Done 0 True,
                   Recv ''A'' (On_sendMessage 1 2 ''hi'' ''t1''), Done 0 True, Done 0 True,
                   Recv ''B'' (On_messageRead (Some [1]) 1 2),
                   Recv ''D'' (On_registerUser 1)] init"]
  by (simp add: server_defs)

text \<open>
  The receipt can reach a user who did not send the rows: the row was sent by user 1,
  bound to A; the read event names senderId 3, bound to C; the receipt goes to C.
\<close>

theorem read_receipt_wrong_sender_counterexample:
  "map sender_id (messages (run [Recv ''A'' (On_registerUser 1), Done 0 True, Done 0 True,
        Recv ''B'' (On_registerUser 2), Done 0 True, Done 0 True,
        Recv ''C'' (On_registerUser 3), Done 0 True, Done 0 True,
        Recv ''A'' (On_sendMessage 1 2 ''hi'' ''t1''), Done 0 True, Done 0 True,
        Recv ''B'' (On_messageRead (Some [1]) 3 2), Done 0 True] init)) = [1]
   \<and> userSockets (run [Recv ''A'' (On_registerUser 1), Done 0 True, Done 0 True,
        Recv ''B'' (On_registerUser 2), Done 0 True, Done 0 True,
        Recv ''C'' (On_registerUser 3), Done 0 True, Done 0 True,
        Recv ''A'' (On_sendMessage 1 2 ''hi'' ''t1''), Done 0 True, Done 0 True,
        Recv ''B'' (On_messageRead (Some [1]) 3 2), Done 0 True] init) =
     [(1, ''A''), (2, ''B''), (3, ''C'')]
   \<and> emissions (trace (run [Recv ''A'' (On_registerUser 1), Done 0 True, Done 0 True,
        Recv ''B'' (On_registerUser 2), Done 0 True, Done 0 True,
        Recv ''C'' (On_registerUser 3), Done 0 True, Done 0 True,
        Recv ''A'' (On_sendMessage 1 2 ''hi'' ''t1''), Done 0 True, Done 0 True,
        Recv ''B'' (On_messageRead (Some [1]) 3 2), Done 0 True] init)) =
     [(Some ''A'', MessageSaved ''t1'' 1), (Some ''B'', UnreadMessagesCount 1),
      (Some ''B'', ReceiveMessage 1 1 ''hi''), (Some ''A'', MessageDelivered 1),
      (Some ''C'', MessageRead 2 [1])]"
  by (simp add: server_defs)

text \<open>
  C7. A send event arriving on any connection issues the insert together with the
  connections the registry holds, at that moment, for the receiverId and the senderId of
  the payload. Whenever that insert succeeds, its callback's one emission is messageSaved,
  carrying the tempId of the event and the id the insert generated, and its target is the
  captured connection of the sender (no connection when the sender was not bound when
  the event arrived); the row written carries that id. The connection the event arrived
  on and the registry of the moment of completion are not consulted.
\<close>

theorem messageSaved_goes_to_registered_sender:
  "step (Recv c (On_sendMessage senderId receiverId body tempId)) s =
     s\<lparr>pending := pending s @
          [InsertMessage senderId receiverId body tempId
             (reg_get (userSockets s) receiverId) (reg_get (userSockets s) senderId)],
       trace := trace s @
          [Query (InsertMessage senderId receiverId body tempId
             (reg_get (userSockets s) receiverId) (reg_get (userSockets s) senderId))]\<rparr>
   \<and> (j < length (pending sb) \<and>
       pending sb ! j = InsertMessage senderId receiverId body tempId rs ss \<longrightarrow>
     emissions (trace (step (Done j True) sb)) =
       emissions (trace sb) @ [(ss, MessageSaved tempId (next_id sb))]
     \<and> messages (step (Done j True) sb) =
       messages sb @ [new_row (next_id sb) senderId receiverId body (rs \<noteq> None)])
   \<and> emissions (trace (run [Recv c (On_sendMessage senderId receiverId body tempId),
                          Done (length (pending s)) True] s)) =
     emissions (trace s) @ [(reg_get (userSockets s) senderId, MessageSaved tempId (next_id s))]
   \<and> messages (run [Recv c (On_sendMessage senderId receiverId body tempId),
                    Done (length (pending s)) True] s) =
     messages s @ [new_row (next_id s) senderId receiverId body
                     (reg_get (userSockets s) receiverId \<noteq> None)]"
proof (intro conjI impI)
  show "step (Recv c (On_sendMessage senderId receiverId body tempId)) s =
     s\<lparr>pending := pending s @
          [InsertMessage senderId receiverId body tempId
             (reg_get (userSockets s) receiverId) (reg_get (userSockets s) senderId)],
       trace := trace s @
          [Query (InsertMessage senderId receiverId body tempId
             (reg_get (userSockets s) receiverId) (reg_get (userSockets s) senderId))]\<rparr>"
    by (simp add: sendMessage_def issue_def Let_def)
next
  assume "j < length (pending sb) \<and>
       pending sb ! j = InsertMessage senderId receiverId body tempId rs ss"
  then show "emissions (trace (step (Done j True) sb)) =
       emissions (trace sb) @ [(ss, MessageSaved tempId (next_id sb))]"
    by (simp add: emit_def issue_def Let_def split: option.split)
next
  assume "j < length (pending sb) \<and>
       pending sb ! j = InsertMessage senderId receiverId body tempId rs ss"
  then show "messages (step (Done j True) sb) =
       messages sb @ [new_row (next_id sb) senderId receiverId body (rs \<noteq> None)]"
    by (simp add: messages_Done del: step.simps)
next
  show "emissions (trace (run [Recv c (On_sendMessage senderId receiverId body tempId),
                          Done (length (pending s)) True] s)) =
     emissions (trace s) @ [(reg_get (userSockets s) senderId, MessageSaved tempId (next_id s))]"
    by (simp only: send_saved) (simp split: option.split)
next
  show "messages (run [Recv c (On_sendMessage senderId receiverId body tempId),
                    Done (length (pending s)) True] s) =
     messages s @ [new_row (next_id s) senderId receiverId body
                     (reg_get (userSockets s) receiverId \<noteq> None)]"
    by (simp only: send_saved) simp
qed

text \<open>
  The witness: user 1 is bound to A and sends on A; user 1 registers on D before the
  insert completes; messageSaved goes to A, the connection captured when the event
  arrived.
\<close>

theorem messageSaved_goes_to_registered_sender_witness:
  "pending
       (run [Recv ''A'' (On_registerUser 1), Done 0 True, Done 0 True,
             Recv ''A'' (On_sendMessage 1 2 ''hi'' ''t1''), Recv ''D'' (On_registerUser 1)] init) =
     [InsertMessage 1 2 ''hi'' ''t1'' None (Some ''A''), MarkDelivered 1]
   \<and> reg_get (userSockets
       (run [Recv ''A'' (On_registerUser 1), Done 0 True, Done 0 True,
             Recv ''A'' (On_sendMessage 1 2 ''hi'' ''t1''), Recv ''D'' (On_registerUser 1)] init)) 1 =
     Some ''D''
   \<and> emissions (trace (step (Done 0 True)
       (run [Recv ''A'' (On_registerUser 1), Done 0 True, Done 0 True,
             Recv ''A'' (On_sendMessage 1 2 ''hi'' ''t1''), Recv ''D'' (On_registerUser 1)] init))) =
     [(Some ''A'', MessageSaved ''t1'' 1)]
   \<and> messages (step (Done 0 True)
       (run [Recv ''A'' (On_registerUser 1), Done 0 True, Done 0 True,
             Recv ''A'' (On_sendMessage 1 2 ''hi'' ''t1''), Recv ''D'' (On_registerUser 1)] init)) =
     [\<lparr>message_id = 1, sender_id = 1, receiver_id = 2, message_text = ''hi'',
       delivered = False, is_read = False\<rparr>]"
  using messageSaved_goes_to_registered_sender [where c = "''A''" and senderId = 1
    and receiverId = 2 and body = "''hi''" and tempId = "''t1''" and j = 0
    and rs = None and ss = "Some ''A''"
    and s = "run [Recv ''A'' (On_registerUser 1), Done 0 True, Done 0 True] init"
    and sb = "run [Recv ''A'' (On_registerUser 1), Done 0 True, Done 0 True,
                   Recv ''A'' (On_sendMessage 1 2 ''hi'' ''t1''),
                   Recv ''D'' (On_registerUser 1)] init"]
  by (simp add: server_defs)

text \<open>
  The target need not be the connection the event arrived on: a send on C by a user who
  is not bound is addressed to no connection, and a send on C by a user bound to B is
  acknowledged on B.
\<close>

theorem messageSaved_own_connection_counterexample:
  "emissions (trace (run [Recv ''C'' (On_sendMessage 1 2 ''hi'' ''t1''), Done 0 True] init)) =
     [(None, MessageSaved ''t1'' 1)]
   \<and> emissions (trace (run [Recv ''B'' (On_registerUser 1), Done 0 True, Done 0 True,
        Recv ''C'' (On_sendMessage 1 2 ''hi'' ''t1''), Done 0 True] init)) =
     [(Some ''B'', MessageSaved ''t1'' 1)]"
  by (simp add: server_defs)

text \<open>
  C8. A read event whose messageIds is missing or empty writes one line to the server's
  console and does nothing else: no query is issued or queued, the table and the registry
  are as before, and nothing is emitted to any connection.
\<close>

theorem empty_read_rejected:
  "step (Recv c (On_messageRead None senderId receiverId)) s =
     s\<lparr>trace := trace s @ [Console No_message_IDs_provided]\<rparr>
   \<and> step (Recv c (On_messageRead (Some []) senderId receiverId)) s =
     s\<lparr>trace := trace s @ [Console No_message_IDs_provided]\<rparr>"
  by (simp add: messageRead_def console_def)

text \<open>
  Nothing of the rejection reaches a client: the trace of the event is the console line
  alone.
\<close>

theorem empty_read_client_error_counterexample:
  "trace (step (Recv ''B'' (On_messageRead (Some []) 1 2)) init) =
     [Console No_message_IDs_provided]
   \<and> \<not> list_ex client_visible (trace (step (Recv ''B'' (On_messageRead (Some []) 1 2)) init))"
  by (simp add: server_defs)

text \<open>
  C9. When a query fails, its callback writes the error line and returns: nothing is
  emitted, no further query is issued (so none is retried), and the table is as before.
  This holds for each of the five queries; in particular a failed insert gives no
  messageSaved and no emission to the receiver, and a failed read update gives no
  messageRead.
\<close>

theorem store_failure_aborts:
  "i < length (pending s) \<longrightarrow>
     step (Done i False) s =
       s\<lparr>pending := drop_nth i (pending s),
         trace := trace s @ [Console (failure_line (pending s ! i))]\<rparr>
     \<and> emissions (trace (step (Done i False) s)) = emissions (trace s)
     \<and> queries (trace (step (Done i False) s)) = queries (trace s)
     \<and> messages (step (Done i False) s) = messages s"
  by (simp add: complete_failed console_def)

theorem store_failure_aborts_witness:
  "0 < length (pending (step (Recv ''A'' (On_sendMessage 1 2 ''hi'' ''t1'')) init))
   \<and> step (Done 0 False) (step (Recv ''A'' (On_sendMessage 1 2 ''hi'' ''t1'')) init) =
       \<lparr>userSockets = [], messages = [], next_id = 1, pending = [],
        trace = [Query (InsertMessage 1 2 ''hi'' ''t1'' None None), Console Error_saving_message]\<rparr>
   \<and> emissions (trace (step (Done 0 False)
        (step (Recv ''A'' (On_sendMessage 1 2 ''hi'' ''t1'')) init))) = []"
  using store_failure_aborts [of 0 "step (Recv ''A'' (On_sendMessage 1 2 ''hi'' ''t1'')) init"]
  by (simp add: server_defs)

text \<open>
  C10. A disconnect changes the registry only: it removes the first entry, in the
  enumeration order of the object, whose value is the disconnecting socket id, if there
  is one. Every other entry keeps its place and value, further entries with that socket
  id included, so the registry loses at most one entry.
\<close>

theorem disconnect_removes_first_binding_only:
  "step (Recv c On_disconnect) s = s\<lparr>userSockets := reg_unbind c (userSockets s)\<rparr>
   \<and> reg_unbind c (userSockets s) =
       (case List.find (\<lambda>e. snd e = c) (userSockets s) of
          None \<Rightarrow> userSockets s
        | Some e \<Rightarrow> remove1 e (userSockets s))
   \<and> length (userSockets s) - length (reg_unbind c (userSockets s)) \<le> 1"
  using reg_unbind_length [of "userSockets s" c]
  by (simp add: disconnect_def reg_unbind_find [symmetric])

theorem disconnect_removes_first_binding_only_witness:
  "userSockets (run [Recv ''A'' (On_registerUser 2), Recv ''A'' (On_registerUser 1),
                     Recv ''B'' (On_registerUser 3)] init) = [(1, ''A''), (2, ''A''), (3, ''B'')]
   \<and> userSockets (step (Recv ''A'' On_disconnect)
        (run [Recv ''A'' (On_registerUser 2), Recv ''A'' (On_registerUser 1),
              Recv ''B'' (On_registerUser 3)] init)) = [(2, ''A''), (3, ''B'')]"
  using disconnect_removes_first_binding_only [of "''A''"
    "run [Recv ''A'' (On_registerUser 2), Recv ''A'' (On_registerUser 1),
          Recv ''B'' (On_registerUser 3)] init"]
  by (simp add: server_defs)

end
